theory Spec2Isabelle
  imports Complex_Main "HOL-Library.Sublist" "HOL-Library.Word"
begin

section \<open>A story pipeline: plan, prose, audio, upload\<close>

text \<open>
  The program chains a language-model backend, a speech service, the ffmpeg tool and an object
  store. This theory embeds its functions from the Python sources \<^verbatim>\<open>audio_utils.py\<close>,
  \<^verbatim>\<open>agent_core.py\<close>, \<^verbatim>\<open>models.py\<close>, \<^verbatim>\<open>cli.py\<close> and \<^verbatim>\<open>app.py\<close>. A function
  whose Python name starts with an underscore is written without it.
\<close>

subsection \<open>Text\<close>

text \<open>
  A Python \<^verbatim>\<open>str\<close> is a sequence of Unicode code points; a code point is a natural number
  here, and \<open>ascii\<close> reads a literal of the source. \<open>is_space\<close> lists the code points that
  \<^verbatim>\<open>str.split()\<close>, \<^verbatim>\<open>str.strip()\<close> and \<^verbatim>\<open>str.isspace()\<close> treat as white space.
  \<open>is_word\<close> is the class \<^verbatim>\<open>\w\<close> of the module \<^verbatim>\<open>re\<close> on \<^verbatim>\<open>str\<close> patterns: the underscore
  and the alphanumeric code points. Below 128 those are the digits and the letters; from 128 on
  they are given by the Unicode database of the Python runtime, which is not part of the
  repository and is the parameter \<open>alnum\<close>. \<open>unicode_table_ok\<close> states the one fact of that
  database the proofs use: no white-space code point is alphanumeric.
\<close>

type_synonym ustr = "nat list"

definition ascii :: "string \<Rightarrow> ustr" where
  "ascii s = map of_char s"

definition is_space :: "nat \<Rightarrow> bool" where
  "is_space c \<longleftrightarrow>
     (9 \<le> c \<and> c \<le> 13) \<or> (28 \<le> c \<and> c \<le> 32) \<or> c = 133 \<or> c = 160 \<or> c = 5760 \<or>
     (8192 \<le> c \<and> c \<le> 8202) \<or> c = 8232 \<or> c = 8233 \<or> c = 8239 \<or> c = 8287 \<or> c = 12288"

definition ascii_alnum :: "nat \<Rightarrow> bool" where
  "ascii_alnum c \<longleftrightarrow> (48 \<le> c \<and> c \<le> 57) \<or> (65 \<le> c \<and> c \<le> 90) \<or> (97 \<le> c \<and> c \<le> 122)"

definition is_word :: "(nat \<Rightarrow> bool) \<Rightarrow> nat \<Rightarrow> bool" where
  "is_word alnum c \<longleftrightarrow> c = 95 \<or> (if c < 128 then ascii_alnum c else alnum c)"

definition unicode_table_ok :: "(nat \<Rightarrow> bool) \<Rightarrow> bool" where
  "unicode_table_ok alnum \<longleftrightarrow> (\<forall>c. is_space c \<longrightarrow> \<not> alnum c)"

text \<open>A sample table for concrete runs: the letters of the Latin-1 block.\<close>

definition sample_alnum :: "nat \<Rightarrow> bool" where
  "sample_alnum c \<longleftrightarrow>
     (192 \<le> c \<and> c \<le> 214) \<or> (216 \<le> c \<and> c \<le> 246) \<or> (248 \<le> c \<and> c \<le> 255)"

text \<open>
  \<^verbatim>\<open>str.split()\<close> without a separator: the maximal runs of code points that are not white
  space, in order; \<open>cur\<close> is the run being read. \<^verbatim>\<open>sep.join(parts)\<close> is \<open>join_str\<close>.
\<close>

fun split_ws :: "ustr \<Rightarrow> ustr \<Rightarrow> ustr list" where
  "split_ws cur [] = (if cur = [] then [] else [cur])"
| "split_ws cur (c # cs) =
     (if is_space c then (if cur = [] then split_ws [] cs else cur # split_ws [] cs)
      else split_ws (cur @ [c]) cs)"

fun join_str :: "ustr \<Rightarrow> ustr list \<Rightarrow> ustr" where
  "join_str sep [] = []"
| "join_str sep [x] = x"
| "join_str sep (x # y # ys) = x @ sep @ join_str sep (y # ys)"

subsection \<open>The pronunciation normalizer (\<^verbatim>\<open>audio_utils.py\<close>)\<close>

text \<open>
  Every pattern of the table is a literal between two \<^verbatim>\<open>\b\<close> anchors, and every replacement
  is a literal without group references, so a table entry is the pair of the two literals.
  \<open>match_at alnum lit prevw s\<close> says that \<^verbatim>\<open>\blit\b\<close> matches at the head of the rest \<open>s\<close> of
  the subject, where \<open>prevw\<close> tells whether the code point before \<open>s\<close> is a word character (it
  is not at the start of the subject). A word boundary is a position whose two sides differ in
  being a word character. \<open>re_sub\<close> is \<^verbatim>\<open>re.sub(pattern, replacement, subject)\<close>: it scans from
  the left, replaces a match and goes on behind it, and copies one code point where nothing
  matches. Its recursion is on a shorter rest each time, which the termination proof shows. An
  empty literal does not occur in the table; \<open>re_sub\<close> leaves the subject as it is for one.
  \<open>re_search\<close> is \<^verbatim>\<open>re.search\<close> for the same patterns, as a truth value.
\<close>

definition next_is_word :: "(nat \<Rightarrow> bool) \<Rightarrow> ustr \<Rightarrow> bool" where
  "next_is_word alnum s = (case s of [] \<Rightarrow> False | c # _ \<Rightarrow> is_word alnum c)"

definition word_boundary :: "(nat \<Rightarrow> bool) \<Rightarrow> bool \<Rightarrow> ustr \<Rightarrow> bool" where
  "word_boundary alnum prevw s \<longleftrightarrow> prevw \<noteq> next_is_word alnum s"

definition match_at :: "(nat \<Rightarrow> bool) \<Rightarrow> ustr \<Rightarrow> bool \<Rightarrow> ustr \<Rightarrow> bool" where
  "match_at alnum lit prevw s \<longleftrightarrow>
     word_boundary alnum prevw s \<and> prefix lit s \<and>
     word_boundary alnum (if lit = [] then prevw else is_word alnum (last lit)) (drop (length lit) s)"

function re_sub :: "(nat \<Rightarrow> bool) \<Rightarrow> ustr \<Rightarrow> ustr \<Rightarrow> bool \<Rightarrow> ustr \<Rightarrow> ustr" where
  "re_sub alnum lit rep prevw [] = []"
| "re_sub alnum lit rep prevw (c # cs) =
     (if lit \<noteq> [] \<and> match_at alnum lit prevw (c # cs)
      then rep @ re_sub alnum lit rep (is_word alnum (last lit)) (drop (length lit) (c # cs))
      else c # re_sub alnum lit rep (is_word alnum c) cs)"
  by pat_completeness auto
termination
  by (relation "measure (\<lambda>(alnum, lit, rep, prevw, s). length s)") auto

fun re_search :: "(nat \<Rightarrow> bool) \<Rightarrow> ustr \<Rightarrow> bool \<Rightarrow> ustr \<Rightarrow> bool" where
  "re_search alnum lit prevw [] = False"
| "re_search alnum lit prevw (c # cs) =
     ((lit \<noteq> [] \<and> match_at alnum lit prevw (c # cs)) \<or> re_search alnum lit (is_word alnum c) cs)"

definition substitutions :: "(ustr \<times> ustr) list" where
  "substitutions =
     [(ascii ''CENTCOM'', ascii ''SENT-kom''),
      (ascii ''NATO'', ascii ''NAY-toh''),
      (ascii ''FEMA'', ascii ''FEE-muh''),
      (ascii ''CISA'', ascii ''SIZ-uh''),
      (ascii ''DHS'', ascii ''D H S''),
      (ascii ''TSA'', ascii ''T S A''),
      (ascii ''FAA'', ascii ''F A A''),
      (ascii ''EPA'', ascii ''E P A''),
      (ascii ''DOJ'', ascii ''D O J''),
      (ascii ''FBI'', ascii ''F B I''),
      (ascii ''NTSB'', ascii ''N T S B''),
      (ascii ''CBP'', ascii ''C B P''),
      (ascii ''ICE'', ascii ''I C E'')]"

text \<open>The loop over the table, then \<^verbatim>\<open>" ".join(updated.split())\<close>.\<close>

definition apply_substitutions :: "(nat \<Rightarrow> bool) \<Rightarrow> (ustr \<times> ustr) list \<Rightarrow> ustr \<Rightarrow> ustr" where
  "apply_substitutions alnum table text =
     foldl (\<lambda>updated (pattern, replacement). re_sub alnum pattern replacement False updated)
       text table"

definition apply_pronunciation_hints :: "(nat \<Rightarrow> bool) \<Rightarrow> ustr \<Rightarrow> ustr" where
  "apply_pronunciation_hints alnum text =
     join_str (ascii '' '') (split_ws [] (apply_substitutions alnum substitutions text))"

text \<open>
  A text contains an acronym of the table when one of the table's patterns is found in it.
\<close>

definition contains_acronym :: "(nat \<Rightarrow> bool) \<Rightarrow> ustr \<Rightarrow> bool" where
  "contains_acronym alnum text \<longleftrightarrow>
     list_ex (\<lambda>(pattern, replacement). re_search alnum pattern False text) substitutions"

text \<open>
  For the proofs: the whole words of a text are its maximal runs of word characters
  (\<open>cur\<close> is the run being read), a word literal is a non-empty run of word characters, and a
  token is a non-empty run without white space.
\<close>

fun words_acc :: "(nat \<Rightarrow> bool) \<Rightarrow> ustr \<Rightarrow> ustr \<Rightarrow> ustr list" where
  "words_acc alnum cur [] = (if cur = [] then [] else [cur])"
| "words_acc alnum cur (c # cs) =
     (if is_word alnum c then words_acc alnum (cur @ [c]) cs
      else (if cur = [] then [] else [cur]) @ words_acc alnum [] cs)"

definition whole_words :: "(nat \<Rightarrow> bool) \<Rightarrow> ustr \<Rightarrow> ustr list" where
  "whole_words alnum s = words_acc alnum [] s"

definition word_literal :: "(nat \<Rightarrow> bool) \<Rightarrow> ustr \<Rightarrow> bool" where
  "word_literal alnum lit \<longleftrightarrow> lit \<noteq> [] \<and> list_all (is_word alnum) lit"

definition token :: "ustr \<Rightarrow> bool" where
  "token t \<longleftrightarrow> t \<noteq> [] \<and> list_all (\<lambda>c. \<not> is_space c) t"

subsection \<open>The data model (\<^verbatim>\<open>models.py\<close>)\<close>

text \<open>
  The four pydantic models are records; a field is named after its class, since two records
  cannot share a field name. \<^verbatim>\<open>Field(min_length=STORY_COUNT, max_length=STORY_COUNT)\<close> is the
  check pydantic runs when an object is built from outside data; it is the predicate
  \<open>validate_story_plan\<close> (\<open>validate_written_stories\<close>). The models constrain nothing else: no
  field relates a written story to its idea.
\<close>

definition STORY_COUNT :: nat where
  "STORY_COUNT = 3"

record story_idea =
  idea_headline :: ustr
  idea_angle :: ustr

record story_plan =
  plan_topic :: ustr
  plan_stories :: "story_idea list"

record written_story =
  story_index :: int
  story_headline :: ustr
  story_story :: ustr

record written_stories =
  written_topic :: ustr
  written_stories :: "written_story list"

definition validate_story_plan :: "story_plan \<Rightarrow> bool" where
  "validate_story_plan plan \<longleftrightarrow>
     STORY_COUNT \<le> length (plan_stories plan) \<and> length (plan_stories plan) \<le> STORY_COUNT"

definition validate_written_stories :: "written_stories \<Rightarrow> bool" where
  "validate_written_stories written \<longleftrightarrow>
     STORY_COUNT \<le> length (written_stories written) \<and>
     length (written_stories written) \<le> STORY_COUNT"

subsection \<open>Values, errors and effects\<close>

text \<open>
  A \<^verbatim>\<open>bytes\<close> object is a list of 8-bit words. A Python \<^verbatim>\<open>float\<close> is a real number, an
  infinity or a NaN; the program only compares one with zero, for which \<open>float_le_zero\<close> is
  Python's \<^verbatim>\<open>x <= 0\<close> (false on a NaN). The literal \<^verbatim>\<open>0.8\<close> is written \<open>Finite (8 / 10)\<close>;
  the double nearest to it is positive as well.

  An exception is a value of \<open>error\<close>: \<open>ValueError\<close> with its message, \<open>HTTPError\<close> for
  \<^verbatim>\<open>raise_for_status\<close>, \<open>CalledProcessError\<close> for \<^verbatim>\<open>subprocess.run(check=True)\<close>, and
  \<open>AgentRunError\<close> for a failed run of the language-model agent.

  A path is the directory a caller names, a child of a path (the operator \<^verbatim>\<open>/\<close> of pathlib,
  with its two operands) or a file of the temporary directory of the call in progress.

  A state of the world is the list of the events that have happened, oldest first. An event
  records what the program did to its surroundings and what came back: an HTTP request with
  its outcome, a run of ffmpeg with its outcome (the bytes of the output file when the exit
  status is zero, \<open>None\<close> otherwise), a file written, a directory made, the temporary directory
  entered and left. Output to the console and to the widgets of the interactive front end is
  not recorded. File operations are taken to succeed.

  The surroundings are the record \<open>env\<close>: the Unicode tables of the runtime, the clock, and
  the answers of the language-model backend, the speech service, ffmpeg and the object store.
  An answer may depend on everything that happened before, so it is a function of the state of
  the world. A reply of the backend is the candidate object of the last exchange of a run; the
  function that runs the agent validates it. An agent is recorded with the model name and the
  system prompt it was built with (and the provider and key, when it holds them).

  A function with effects takes the state of the world and returns its result, an error or a
  value, with the new state. \<open>io_bind\<close> runs a second step on the value of a first one, and
  passes an error of the first on without running the second, as an exception does.
\<close>

type_synonym bytes = "8 word list"

datatype error =
    ValueError ustr
  | HTTPError
  | CalledProcessError
  | AgentRunError

datatype pyfloat = Finite real | PosInf | NegInf | NaN

fun float_le_zero :: "pyfloat \<Rightarrow> bool" where
  "float_le_zero (Finite x) = (x \<le> 0)"
| "float_le_zero PosInf = False"
| "float_le_zero NegInf = True"
| "float_le_zero NaN = False"

fun float_gt_zero :: "pyfloat \<Rightarrow> bool" where
  "float_gt_zero (Finite x) = (0 < x)"
| "float_gt_zero PosInf = True"
| "float_gt_zero NegInf = False"
| "float_gt_zero NaN = False"

datatype path = Dir ustr | Child path ustr | Temp ustr

datatype agent =
    Gateway_agent ustr ustr
  | Provider_agent ustr ustr ustr ustr

datatype ffmpeg_job = Silence pyfloat int | Concat nat ustr

datatype event =
    Setenv ustr ustr
  | Run_agent agent ustr
  | Http_post ustr ustr "bytes option"
  | Enter_temp_dir
  | Leave_temp_dir
  | Mkdir path
  | Write_bytes path bytes
  | Write_text path ustr
  | Run_ffmpeg ffmpeg_job "bytes option"
  | Http_put ustr ustr ustr bytes bool

type_synonym world = "event list"

record datetime =
  dt_year :: nat
  dt_month :: nat
  dt_day :: nat
  dt_hour :: nat
  dt_minute :: nat
  dt_second :: nat
  dt_microsecond :: nat

record env =
  uni_alnum :: "nat \<Rightarrow> bool"
  str_lower :: "ustr \<Rightarrow> ustr"
  utc_now :: "world \<Rightarrow> datetime"
  plan_reply :: "world \<Rightarrow> agent \<Rightarrow> ustr \<Rightarrow> story_plan option"
  written_reply :: "world \<Rightarrow> agent \<Rightarrow> ustr \<Rightarrow> written_stories option"
  tts_reply :: "world \<Rightarrow> ustr \<Rightarrow> ustr \<Rightarrow> bytes option"
  ffmpeg_reply :: "world \<Rightarrow> ffmpeg_job \<Rightarrow> bytes option"
  put_reply :: "world \<Rightarrow> ustr \<Rightarrow> ustr \<Rightarrow> ustr \<Rightarrow> bytes \<Rightarrow> bool"

definition io_bind ::
  "(error + 'a) \<times> world \<Rightarrow> ('a \<Rightarrow> world \<Rightarrow> (error + 'b) \<times> world) \<Rightarrow> (error + 'b) \<times> world" where
  "io_bind r f = (case r of (Inl e, w) \<Rightarrow> (Inl e, w) | (Inr x, w) \<Rightarrow> f x w)"

subsection \<open>Methods of \<^verbatim>\<open>str\<close> and \<^verbatim>\<open>int\<close>\<close>

text \<open>
  \<open>str_strip\<close> is \<^verbatim>\<open>s.strip()\<close>, \<open>str_strip_chars\<close> is \<^verbatim>\<open>s.strip(chars)\<close>, \<open>removeprefix\<close> is
  \<^verbatim>\<open>s.removeprefix(p)\<close>; \<^verbatim>\<open>startswith\<close> and \<^verbatim>\<open>endswith\<close> are \<open>prefix\<close> and \<open>suffix\<close>.
  \<open>split_on sep [] s\<close> is \<^verbatim>\<open>s.split(sep)\<close> for a separator of one code point. \<open>dec\<close> is the
  decimal numeral of a natural number, \<open>str_int\<close> is \<^verbatim>\<open>str(i)\<close> of an integer, and
  \<open>zero_pad\<close> is the numeral filled with zeros to a width.
\<close>

definition str_strip :: "ustr \<Rightarrow> ustr" where
  "str_strip s = rev (dropWhile is_space (rev (dropWhile is_space s)))"

definition str_strip_chars :: "ustr \<Rightarrow> ustr \<Rightarrow> ustr" where
  "str_strip_chars chars s =
     rev (dropWhile (\<lambda>c. c \<in> set chars) (rev (dropWhile (\<lambda>c. c \<in> set chars) s)))"

definition removeprefix :: "ustr \<Rightarrow> ustr \<Rightarrow> ustr" where
  "removeprefix p s = (if prefix p s then drop (length p) s else s)"


function dec :: "nat \<Rightarrow> ustr" where
  "dec n = (if n < 10 then [48 + n] else dec (n div 10) @ [48 + n mod 10])"
  by pat_completeness auto
termination
  by (relation "measure id") auto

declare dec.simps [simp del]

definition str_int :: "int \<Rightarrow> ustr" where
  "str_int i = (if i < 0 then 45 # dec (nat (- i)) else dec (nat i))"

definition zero_pad :: "nat \<Rightarrow> nat \<Rightarrow> ustr" where
  "zero_pad width n = replicate (width - length (dec n)) 48 @ dec n"

subsection \<open>Speech, silence, upload and concatenation (\<^verbatim>\<open>audio_utils.py\<close>)\<close>


definition synthesize_silence_segment ::
  "env \<Rightarrow> pyfloat \<Rightarrow> int \<Rightarrow> world \<Rightarrow> (error + bytes) \<times> world" where
  "synthesize_silence_segment env duration_seconds sample_rate w =
     (if float_le_zero duration_seconds
      then (Inl (ValueError (ascii ''duration_seconds must be greater than zero'')), w)
      else
        let w1 = w @ [Enter_temp_dir];
            cmd = Silence duration_seconds sample_rate;
            completed = ffmpeg_reply env w1 cmd;
            w2 = w1 @ [Run_ffmpeg cmd completed, Leave_temp_dir]
        in case completed of
             None \<Rightarrow> (Inl CalledProcessError, w2)
           | Some output \<Rightarrow> (Inr output, w2))"

text \<open>
  The host of the object store. \<open>clean_region\<close> is the value of the variable \<^verbatim>\<open>cleaned\<close>
  when the source tests it: the hint without surrounding white space, then without one
  leading scheme (\<open>strip_scheme\<close>), then without leading and trailing slashes.
\<close>

definition strip_scheme :: "ustr \<Rightarrow> ustr" where
  "strip_scheme cleaned =
     (if prefix (ascii ''https://'') cleaned then removeprefix (ascii ''https://'') cleaned
      else if prefix (ascii ''http://'') cleaned then removeprefix (ascii ''http://'') cleaned
      else cleaned)"

definition clean_region :: "ustr \<Rightarrow> ustr" where
  "clean_region region = str_strip_chars (ascii ''/'') (strip_scheme (str_strip region))"

definition normalize_bunny_storage_host :: "ustr \<Rightarrow> ustr" where
  "normalize_bunny_storage_host region =
     (let cleaned = clean_region region
      in if cleaned = [] then ascii ''storage.bunnycdn.com''
         else if suffix (ascii ''.bunnycdn.com'') cleaned then cleaned
         else cleaned @ ascii ''.storage.bunnycdn.com'')"


definition segment_name :: "nat \<Rightarrow> ustr" where
  "segment_name idx = ascii ''segment_'' @ dec idx @ ascii ''.wav''"

definition concatenate_audio_segments ::
  "env \<Rightarrow> bytes list \<Rightarrow> ustr \<Rightarrow> world \<Rightarrow> (error + bytes) \<times> world" where
  "concatenate_audio_segments env audio_segments output_format w =
     (if length audio_segments < 2
      then (Inl (ValueError (ascii ''Need at least two audio segments to concatenate'')), w)
      else
        let w1 = w @ [Enter_temp_dir] @
                 map (\<lambda>(idx, segment). Write_bytes (Temp (segment_name idx)) segment)
                   (enumerate 0 audio_segments);
            cmd = Concat (length audio_segments) output_format;
            completed = ffmpeg_reply env w1 cmd;
            w2 = w1 @ [Run_ffmpeg cmd completed, Leave_temp_dir]
        in case completed of
             None \<Rightarrow> (Inl CalledProcessError, w2)
           | Some output \<Rightarrow> (Inr output, w2))"

subsection \<open>Plans, stories and files (\<^verbatim>\<open>agent_core.py\<close>)\<close>

text \<open>
  \<open>json_dumps indent obj\<close> is \<^verbatim>\<open>json.dumps(obj, indent=indent, ensure_ascii=True)\<close> on the
  values the program serializes: strings, integers, lists and dictionaries with string keys
  (in the order of their items). Without an indent the items are separated by a comma and a
  blank; with one, by a comma, a line break and the indent of their level. A string is
  written between double quotes, with the escapes of \<^verbatim>\<open>ensure_ascii\<close>: every code point
  outside the printable ASCII range becomes \<^verbatim>\<open>\uXXXX\<close>, a surrogate pair above the basic
  plane. \<open>story_plan_dump\<close> and \<open>written_stories_dump\<close> are \<^verbatim>\<open>model_dump()\<close> of the two
  models, the fields in the order of their declaration.
\<close>

datatype json = JString ustr | JInt int | JArray "json list" | JObject "(ustr \<times> json) list"

definition hex4 :: "nat \<Rightarrow> ustr" where
  "hex4 n = map (\<lambda>d. if d < 10 then 48 + d else 87 + d)
     [n div 4096 mod 16, n div 256 mod 16, n div 16 mod 16, n mod 16]"

definition escape_ascii :: "nat \<Rightarrow> ustr" where
  "escape_ascii c =
     (if c = 34 then [92, 34]
      else if c = 92 then [92, 92]
      else if c = 10 then [92, 110]
      else if c = 13 then [92, 114]
      else if c = 9 then [92, 116]
      else if c = 8 then [92, 98]
      else if c = 12 then [92, 102]
      else if 32 \<le> c \<and> c \<le> 126 then [c]
      else if c < 65536 then [92, 117] @ hex4 c
      else [92, 117] @ hex4 (55296 + (c - 65536) div 1024 mod 1024) @
           [92, 117] @ hex4 (56320 + (c - 65536) mod 1024))"

definition encode_basestring_ascii :: "ustr \<Rightarrow> ustr" where
  "encode_basestring_ascii s = 34 # concat (map escape_ascii s) @ [34]"

definition newline_indent :: "nat option \<Rightarrow> nat \<Rightarrow> ustr" where
  "newline_indent indent level =
     (case indent of None \<Rightarrow> [] | Some n \<Rightarrow> 10 # replicate (n * level) 32)"

definition item_separator :: "nat option \<Rightarrow> ustr" where
  "item_separator indent = (case indent of None \<Rightarrow> ascii '', '' | Some n \<Rightarrow> ascii '','')"

fun json_encode :: "nat option \<Rightarrow> nat \<Rightarrow> json \<Rightarrow> ustr" where
  "json_encode indent level (JString s) = encode_basestring_ascii s"
| "json_encode indent level (JInt i) = str_int i"
| "json_encode indent level (JArray xs) =
     (if xs = [] then ascii ''[]''
      else ascii ''['' @ newline_indent indent (level + 1) @
           join_str (item_separator indent @ newline_indent indent (level + 1))
             (map (json_encode indent (level + 1)) xs) @
           newline_indent indent level @ ascii '']'')"
| "json_encode indent level (JObject kvs) =
     (if kvs = [] then ascii ''{}''
      else ascii ''{'' @ newline_indent indent (level + 1) @
           join_str (item_separator indent @ newline_indent indent (level + 1))
             (map (\<lambda>(k, v). encode_basestring_ascii k @ ascii '': '' @
                              json_encode indent (level + 1) v) kvs) @
           newline_indent indent level @ ascii ''}'')"

definition json_dumps :: "nat option \<Rightarrow> json \<Rightarrow> ustr" where
  "json_dumps indent obj = json_encode indent 0 obj"

definition story_plan_dump :: "story_plan \<Rightarrow> json" where
  "story_plan_dump plan =
     JObject [(ascii ''topic'', JString (plan_topic plan)),
              (ascii ''stories'', JArray (map (\<lambda>idea.
                 JObject [(ascii ''headline'', JString (idea_headline idea)),
                          (ascii ''angle'', JString (idea_angle idea))]) (plan_stories plan)))]"


text \<open>
  An agent is built for a model named \<^verbatim>\<open>gateway/...\<close> by exporting the key to the process
  environment, and for any other model with a provider object that holds the key.
  \<open>generate_story_plan\<close> and \<open>write_full_stories\<close> build an agent, run it once on their prompt
  and return its output. The output type of the agent makes the run validate the candidate of
  the backend against the model; a run that ends without a valid candidate raises. Nothing
  else is checked: the prompt of the writer asks for the order and the headlines of the plan,
  and the code returns what the run gives.
\<close>

definition build_agent :: "ustr \<Rightarrow> ustr \<Rightarrow> ustr \<Rightarrow> ustr \<Rightarrow> world \<Rightarrow> agent \<times> world" where
  "build_agent model_name provider_name gateway_api_key system_prompt w =
     (if prefix (ascii ''gateway/'') model_name
      then (Gateway_agent model_name system_prompt,
            w @ [Setenv (ascii ''PYDANTIC_AI_GATEWAY_API_KEY'') gateway_api_key])
      else (Provider_agent model_name provider_name gateway_api_key system_prompt, w))"

definition planner_system_prompt :: ustr where
  "planner_system_prompt =
     ascii ''You are a newsroom assignment editor. '' @
     ascii ''Given one topic, generate exactly '' @ dec STORY_COUNT @
     ascii '' distinct, high-quality story ideas.''"

definition planner_prompt :: "ustr \<Rightarrow> ustr" where
  "planner_prompt topic =
     ascii ''Create exactly '' @ dec STORY_COUNT @ ascii '' story ideas for this topic.\<newline>'' @
     ascii ''Requirements:\<newline>'' @
     ascii ''1) Keep ideas unique and non-overlapping.\<newline>'' @
     ascii ''2) Headline must be specific, concrete, and newsroom-style.\<newline>'' @
     ascii ''3) Angle is one sentence describing what makes that story worth covering.\<newline>'' @
     ascii ''4) Keep all ideas tightly related to the topic.\<newline>'' @
     ascii ''5) Return structured output only.\<newline>\<newline>'' @
     ascii ''Topic: '' @ topic"

definition generate_story_plan ::
  "env \<Rightarrow> ustr \<Rightarrow> ustr \<Rightarrow> ustr \<Rightarrow> ustr \<Rightarrow> world \<Rightarrow> (error + story_plan) \<times> world" where
  "generate_story_plan env topic model_name provider_name gateway_api_key w =
     (let (planner, w1) = build_agent model_name provider_name gateway_api_key
                            planner_system_prompt w;
          prompt = planner_prompt topic;
          output = plan_reply env w1 planner prompt;
          w2 = w1 @ [Run_agent planner prompt]
      in case output of
           None \<Rightarrow> (Inl AgentRunError, w2)
         | Some plan \<Rightarrow>
             if validate_story_plan plan then (Inr plan, w2) else (Inl AgentRunError, w2))"

definition writer_system_prompt :: ustr where
  "writer_system_prompt =
     ascii ''You are a precise news writer. '' @
     ascii ''Write clear, factual-looking sample stories from provided story ideas.''"

definition writer_prompt :: "story_plan \<Rightarrow> ustr" where
  "writer_prompt plan =
     ascii ''Write exactly one short news story for each idea below.\<newline>'' @
     ascii ''Requirements:\<newline>'' @
     ascii ''1) Return exactly '' @ dec STORY_COUNT @
       ascii '' stories in the same order as the input ideas.\<newline>'' @
     ascii ''2) Each story should be 3 short paragraphs, plain text only.\<newline>'' @
     ascii ''3) Keep tone neutral and informative.\<newline>'' @
     ascii ''4) Do not output markdown, bullet points, or labels inside story text.\<newline>'' @
     ascii ''5) Use the provided headline for each corresponding story.\<newline>'' @
     ascii ''6) Return structured output only.\<newline>\<newline>'' @
     ascii ''Story plan JSON:\<newline>'' @ json_dumps None (story_plan_dump plan)"

definition write_full_stories ::
  "env \<Rightarrow> story_plan \<Rightarrow> ustr \<Rightarrow> ustr \<Rightarrow> ustr \<Rightarrow> world \<Rightarrow> (error + written_stories) \<times> world" where
  "write_full_stories env plan model_name provider_name gateway_api_key w =
     (let (writer, w1) = build_agent model_name provider_name gateway_api_key
                           writer_system_prompt w;
          prompt = writer_prompt plan;
          output = written_reply env w1 writer prompt;
          w2 = w1 @ [Run_agent writer prompt]
      in case output of
           None \<Rightarrow> (Inl AgentRunError, w2)
         | Some written \<Rightarrow>
             if validate_written_stories written then (Inr written, w2)
             else (Inl AgentRunError, w2))"


text \<open>
  A reading of the clock is a \<^verbatim>\<open>datetime\<close> in UTC. \<open>strftime_run_stamp\<close> is its
  \<^verbatim>\<open>strftime("%Y%m%dT%H%M%SZ")\<close>: two digits for each field but the year, which is the
  numeral of the year (four digits from the year 1000 on; for an earlier year the C library
  decides whether it is filled with zeros, and glibc does not fill it). \<open>topic_slug\<close> is the
  expression \<^verbatim>\<open>"-".join(plan.topic.lower().split())[:60] or "topic"\<close>, with \<^verbatim>\<open>str.lower\<close> of
  the runtime as the parameter \<open>lower\<close>, and \<open>run_dir_name\<close> is the name given to the run
  directory. \<open>save_outputs\<close> reads the clock, makes the directory and writes the three files.
\<close>

definition strftime_run_stamp :: "datetime \<Rightarrow> ustr" where
  "strftime_run_stamp now =
     dec (dt_year now) @ zero_pad 2 (dt_month now) @ zero_pad 2 (dt_day now) @ ascii ''T'' @
     zero_pad 2 (dt_hour now) @ zero_pad 2 (dt_minute now) @ zero_pad 2 (dt_second now) @
     ascii ''Z''"

definition topic_slug :: "(ustr \<Rightarrow> ustr) \<Rightarrow> ustr \<Rightarrow> ustr" where
  "topic_slug lower topic =
     (let slug = take 60 (join_str (ascii ''-'') (split_ws [] (lower topic)))
      in if slug = [] then ascii ''topic'' else slug)"

definition run_dir_name :: "(ustr \<Rightarrow> ustr) \<Rightarrow> ustr \<Rightarrow> datetime \<Rightarrow> ustr" where
  "run_dir_name lower topic now = topic_slug lower topic @ ascii ''_'' @ strftime_run_stamp now"


text \<open>
  The difference of two \<^verbatim>\<open>datetime\<close> values is the difference of their ordinals of day,
  hours, minutes, seconds and microseconds, as the module \<^verbatim>\<open>datetime\<close> computes it in the
  proleptic Gregorian calendar. \<open>valid_datetime\<close> is the range check of the \<^verbatim>\<open>datetime\<close>
  constructor. Two readings are \<open>seconds_apart\<close> when they differ by one second or more.
\<close>

definition is_leap :: "nat \<Rightarrow> bool" where
  "is_leap y \<longleftrightarrow> y mod 4 = 0 \<and> (y mod 100 \<noteq> 0 \<or> y mod 400 = 0)"

definition days_in_month :: "nat \<Rightarrow> nat \<Rightarrow> nat" where
  "days_in_month y m =
     (if m = 2 then (if is_leap y then 29 else 28)
      else if m = 4 \<or> m = 6 \<or> m = 9 \<or> m = 11 then 30 else 31)"

definition days_before_year :: "nat \<Rightarrow> nat" where
  "days_before_year y = (y - 1) * 365 + (y - 1) div 4 - (y - 1) div 100 + (y - 1) div 400"

definition days_before_month :: "nat \<Rightarrow> nat \<Rightarrow> nat" where
  "days_before_month y m =
     [0, 0, 31, 59, 90, 120, 151, 181, 212, 243, 273, 304, 334] ! m +
     (if 2 < m \<and> is_leap y then 1 else 0)"

definition ymd2ord :: "nat \<Rightarrow> nat \<Rightarrow> nat \<Rightarrow> nat" where
  "ymd2ord y m d = days_before_year y + days_before_month y m + d"

definition valid_datetime :: "datetime \<Rightarrow> bool" where
  "valid_datetime t \<longleftrightarrow>
     1 \<le> dt_year t \<and> dt_year t \<le> 9999 \<and> 1 \<le> dt_month t \<and> dt_month t \<le> 12 \<and>
     1 \<le> dt_day t \<and> dt_day t \<le> days_in_month (dt_year t) (dt_month t) \<and>
     dt_hour t < 24 \<and> dt_minute t < 60 \<and> dt_second t < 60 \<and> dt_microsecond t < 1000000"

definition microseconds :: "datetime \<Rightarrow> int" where
  "microseconds t =
     (((int (ymd2ord (dt_year t) (dt_month t) (dt_day t)) * 24 + int (dt_hour t)) * 60 +
        int (dt_minute t)) * 60 + int (dt_second t)) * 1000000 + int (dt_microsecond t)"

definition seconds_apart :: "datetime \<Rightarrow> datetime \<Rightarrow> bool" where
  "seconds_apart t1 t2 \<longleftrightarrow> 1000000 \<le> \<bar>microseconds t1 - microseconds t2\<bar>"

subsection \<open>The audio stage of the two front ends (\<^verbatim>\<open>cli.py\<close>, \<^verbatim>\<open>app.py\<close>)\<close>









subsection \<open>Statements of the specification, and sample surroundings\<close>

text \<open>
  The specification's sentence on the host of the object store, in its own words: the hint
  loses a scheme prefix and its trailing slashes; if it then ends in the root domain of the
  provider it is the host, and otherwise the root domain is appended to it. The sentence
  names no string, so the domain tested and the string appended are the parameters
  \<open>root_domain\<close> and \<open>appended\<close>.
\<close>

definition spec_clean_region :: "ustr \<Rightarrow> ustr" where
  "spec_clean_region region = rev (dropWhile (\<lambda>c. c = 47) (rev (strip_scheme region)))"

definition spec_normalize_host :: "ustr \<Rightarrow> ustr \<Rightarrow> ustr \<Rightarrow> ustr" where
  "spec_normalize_host root_domain appended region =
     (let cleaned = spec_clean_region region
      in if suffix root_domain cleaned then cleaned else cleaned @ appended)"

text \<open>
  Surroundings for concrete runs: every service answers, a speech clip or an ffmpeg output is
  the one byte that counts the events before it, the clock stands at the first second of
  2025, and \<^verbatim>\<open>str.lower\<close> is its restriction to ASCII letters.
\<close>

definition sample_now :: datetime where
  "sample_now = \<lparr>dt_year = 2025, dt_month = 1, dt_day = 1, dt_hour = 0, dt_minute = 0,
                  dt_second = 0, dt_microsecond = 0\<rparr>"

definition ascii_lower :: "ustr \<Rightarrow> ustr" where
  "ascii_lower = map (\<lambda>c. if 65 \<le> c \<and> c \<le> 90 then c + 32 else c)"

definition sample_env :: env where
  "sample_env =
     \<lparr>uni_alnum = sample_alnum,
      str_lower = ascii_lower,
      utc_now = (\<lambda>w. sample_now),
      plan_reply = (\<lambda>w a p. None),
      written_reply = (\<lambda>w a p. None),
      tts_reply = (\<lambda>w k t. Some [of_nat (length w)]),
      ffmpeg_reply = (\<lambda>w j. Some [of_nat (length w)]),
      put_reply = (\<lambda>w u k c b. True)\<rparr>"


text \<open>
  The order property the specification states for the story writer: story \<open>i\<close> of the output
  (counted from 0) has index \<open>i + 1\<close> and the headline of idea \<open>i\<close> of the plan.
\<close>

definition preserves_order :: "story_plan \<Rightarrow> written_stories \<Rightarrow> bool" where
  "preserves_order plan output \<longleftrightarrow>
     list_all (\<lambda>i. story_index (written_stories output ! i) = int i + 1 \<and>
                   story_headline (written_stories output ! i) =
                     idea_headline (plan_stories plan ! i)) [0..<STORY_COUNT]"

text \<open>
  A plan of three ideas, the stories a careful backend writes for it, and the stories of a
  backend that swaps two of them, invents a headline and numbers one story 7: three stories
  all the same, so the schema accepts them. \<open>scripted_env reply\<close> is the sample surroundings
  with a backend that answers the writer with \<open>reply\<close>.
\<close>

definition sample_plan :: story_plan where
  "sample_plan =
     \<lparr>plan_topic = ascii ''coral reef bleaching'',
      plan_stories =
        [\<lparr>idea_headline = ascii ''H1'', idea_angle = ascii ''A1''\<rparr>,
         \<lparr>idea_headline = ascii ''H2'', idea_angle = ascii ''A2''\<rparr>,
         \<lparr>idea_headline = ascii ''H3'', idea_angle = ascii ''A3''\<rparr>]\<rparr>"

definition sample_written :: written_stories where
  "sample_written =
     \<lparr>written_topic = ascii ''coral reef bleaching'',
      written_stories =
        [\<lparr>story_index = 1, story_headline = ascii ''H1'', story_story = ascii ''S1''\<rparr>,
         \<lparr>story_index = 2, story_headline = ascii ''H2'', story_story = ascii ''S2''\<rparr>,
         \<lparr>story_index = 3, story_headline = ascii ''H3'', story_story = ascii ''S3''\<rparr>]\<rparr>"

definition swapped_written :: written_stories where
  "swapped_written =
     \<lparr>written_topic = ascii ''coral reef bleaching'',
      written_stories =
        [\<lparr>story_index = 2, story_headline = ascii ''H2'', story_story = ascii ''S2''\<rparr>,
         \<lparr>story_index = 1, story_headline = ascii ''A fresh headline'', story_story = ascii ''S1''\<rparr>,
         \<lparr>story_index = 7, story_headline = ascii ''H3'', story_story = ascii ''S3''\<rparr>]\<rparr>"

definition scripted_env :: "written_stories \<Rightarrow> env" where
  "scripted_env reply = sample_env\<lparr>written_reply := (\<lambda>w a p. Some reply)\<rparr>"










section \<open>Properties\<close>

subsection \<open>Whole words and the substitution scan\<close>

lemma words_acc_run:
  "list_all (is_word alnum) v \<Longrightarrow> words_acc alnum cur (v @ s) = words_acc alnum (cur @ v) s"
  by (induction v arbitrary: cur) simp_all

lemma words_acc_split:
  "\<not> is_word alnum c \<Longrightarrow>
   words_acc alnum cur (a @ c # b) = words_acc alnum cur a @ words_acc alnum [] b"
  by (induction a arbitrary: cur) simp_all

lemma whole_words_sep:
  "\<not> is_word alnum c \<Longrightarrow> whole_words alnum (c # cs) = whole_words alnum cs"
  by (simp add: whole_words_def)

lemma whole_words_run:
  assumes "v \<noteq> []" "list_all (is_word alnum) v" "\<not> next_is_word alnum s"
  shows "whole_words alnum (v @ s) = v # whole_words alnum s"
proof -
  have "whole_words alnum (v @ s) = words_acc alnum v s"
    using words_acc_run [OF assms(2), of "[]" s] by (simp add: whole_words_def)
  also have "\<dots> = v # whole_words alnum s"
    using assms(1,3) by (cases s) (simp_all add: whole_words_def next_is_word_def)
  finally show ?thesis .
qed

lemma whole_words_append:
  assumes "\<not> next_is_word alnum y"
  shows "whole_words alnum (x @ y) = whole_words alnum x @ whole_words alnum y"
proof (cases y)
  case Nil
  then show ?thesis by (simp add: whole_words_def)
next
  case (Cons c cs)
  with assms have nw: "\<not> is_word alnum c" by (simp add: next_is_word_def)
  show ?thesis
    unfolding Cons whole_words_def
    using words_acc_split [OF nw, of "[]" x cs] nw by simp
qed

lemma word_runs_induct [consumes 0, case_names Nil Sep Run]:
  assumes nil: "P []"
    and sep: "\<And>c cs. \<not> is_word alnum c \<Longrightarrow> P cs \<Longrightarrow> P (c # cs)"
    and run: "\<And>v s. v \<noteq> [] \<Longrightarrow> list_all (is_word alnum) v \<Longrightarrow>
                \<not> next_is_word alnum s \<Longrightarrow> P s \<Longrightarrow> P (v @ s)"
  shows "P s"
proof (induction s rule: length_induct)
  case (1 s)
  show ?case
  proof (cases s)
    case Nil
    then show ?thesis using nil by simp
  next
    case (Cons c cs)
    show ?thesis
    proof (cases "is_word alnum c")
      case False
      then show ?thesis using Cons sep 1 by simp
    next
      case True
      define v where "v = takeWhile (is_word alnum) s"
      define r where "r = dropWhile (is_word alnum) s"
      have s: "s = v @ r" by (simp add: v_def r_def)
      have v: "v \<noteq> []" using True Cons by (simp add: v_def)
      have allw: "list_all (is_word alnum) v"
        by (simp add: v_def list_all_iff) (meson set_takeWhileD)
      have nxt: "\<not> next_is_word alnum r"
      proof (cases r)
        case Nil
        then show ?thesis by (simp add: next_is_word_def)
      next
        case (Cons a as)
        then have "dropWhile (is_word alnum) s \<noteq> []" by (simp add: r_def)
        then have "\<not> is_word alnum (hd (dropWhile (is_word alnum) s))" by (rule hd_dropWhile)
        then have "\<not> is_word alnum (hd r)" by (simp add: r_def)
        then show ?thesis using Cons by (simp add: next_is_word_def)
      qed
      have "length r < length s" using s v by simp
      then have "P r" using 1 by simp
      then show ?thesis using run [OF v allw nxt] s by simp
    qed
  qed
qed

lemma no_match_sep:
  "word_literal alnum lit \<Longrightarrow> \<not> is_word alnum c \<Longrightarrow> \<not> match_at alnum lit prevw (c # cs)"
  by (cases lit) (auto simp: match_at_def word_literal_def)

lemma no_match_inside:
  "is_word alnum c \<Longrightarrow> \<not> match_at alnum lit True (c # cs)"
  by (simp add: match_at_def word_boundary_def next_is_word_def)

lemma match_run:
  assumes lit: "word_literal alnum lit" and v: "v \<noteq> []" "list_all (is_word alnum) v"
    and s: "\<not> next_is_word alnum s"
  shows "match_at alnum lit False (v @ s) \<longleftrightarrow> v = lit"
proof
  assume "v = lit"
  then show "match_at alnum lit False (v @ s)"
    using lit s by (cases lit) (auto simp: match_at_def word_boundary_def next_is_word_def word_literal_def list_all_iff)
next
  assume m: "match_at alnum lit False (v @ s)"
  then have pre: "prefix lit (v @ s)"
    and bnd: "word_boundary alnum (is_word alnum (last lit)) (drop (length lit) (v @ s))"
    using lit by (auto simp: match_at_def word_literal_def)
  have lastw: "is_word alnum (last lit)"
    using lit by (auto simp: word_literal_def list_all_iff)
  have "prefix lit v \<or> (\<exists>us. lit = v @ us \<and> prefix us s \<and> us \<noteq> [])"
  proof (cases "prefix lit v")
    case True
    then show ?thesis by simp
  next
    case False
    with pre obtain us where us: "lit = v @ us" "prefix us s" by (auto simp: prefix_append)
    with False have "us \<noteq> []" by auto
    with us show ?thesis by blast
  qed
  then consider (a) "prefix lit v" | (b) us where "lit = v @ us" "prefix us s" "us \<noteq> []"
    by blast
  then show "v = lit"
  proof cases
    case a
    then obtain t where t: "v = lit @ t" by (auto simp: prefix_def)
    show ?thesis
    proof (cases t)
      case Nil
      then show ?thesis using t by simp
    next
      case (Cons x xs)
      then have "is_word alnum x" using v(2) t by (simp add: list_all_iff)
      then have "next_is_word alnum (drop (length lit) (v @ s))"
        using t Cons by (simp add: next_is_word_def)
      then show ?thesis using bnd lastw by (simp add: word_boundary_def)
    qed
  next
    case b
    then obtain x xs where us: "us = x # xs" by (cases us) auto
    then have "is_word alnum x" using lit b(1) by (simp add: word_literal_def list_all_iff)
    moreover have "\<exists>t. s = x # t" using b(2) us by (auto simp: prefix_def)
    ultimately show ?thesis using s by (auto simp: next_is_word_def)
  qed
qed

lemma re_sub_sep:
  "word_literal alnum lit \<Longrightarrow> \<not> is_word alnum c \<Longrightarrow>
   re_sub alnum lit rep prevw (c # cs) = c # re_sub alnum lit rep False cs"
  using no_match_sep [of alnum lit c prevw cs] by simp

lemma re_sub_inside:
  "list_all (is_word alnum) v \<Longrightarrow>
   re_sub alnum lit rep True (v @ s) = v @ re_sub alnum lit rep True s"
  by (induction v) (simp_all add: no_match_inside)

lemma re_sub_after_word:
  "word_literal alnum lit \<Longrightarrow> \<not> next_is_word alnum s \<Longrightarrow>
   re_sub alnum lit rep True s = re_sub alnum lit rep False s"
  by (cases s) (simp_all add: re_sub_sep next_is_word_def del: re_sub.simps(2))

lemma re_sub_keeps_sep:
  "word_literal alnum lit \<Longrightarrow> \<not> next_is_word alnum s \<Longrightarrow>
   \<not> next_is_word alnum (re_sub alnum lit rep prevw s)"
  by (cases s) (simp_all add: re_sub_sep next_is_word_def del: re_sub.simps(2))

lemma re_sub_run:
  assumes lit: "word_literal alnum lit" and v: "v \<noteq> []" "list_all (is_word alnum) v"
    and s: "\<not> next_is_word alnum s"
  shows "re_sub alnum lit rep False (v @ s) =
         (if v = lit then rep else v) @ re_sub alnum lit rep False s"
proof -
  obtain c v' where cv: "v = c # v'" using v(1) by (cases v) auto
  have wc: "is_word alnum c" and wv': "list_all (is_word alnum) v'"
    using v(2) cv by simp_all
  have litne: "lit \<noteq> []" and lastw: "is_word alnum (last lit)"
    using lit by (auto simp: word_literal_def list_all_iff)
  show ?thesis
  proof (cases "v = lit")
    case True
    then have m0: "match_at alnum lit False (v @ s)"
      using match_run [OF lit v s] by blast
    have m: "match_at alnum lit False (c # v' @ s)"
      using m0 unfolding cv by simp
    have d: "drop (length lit) (c # v' @ s) = s"
      using True cv by (metis append_Cons append_eq_conv_conj)
    have "re_sub alnum lit rep False (c # v' @ s) = rep @ re_sub alnum lit rep True s"
      using m litne lastw d by simp
    then have "re_sub alnum lit rep False (v @ s) = rep @ re_sub alnum lit rep True s"
      unfolding cv by simp
    then show ?thesis
      using True re_sub_after_word [OF lit s] by simp
  next
    case False
    then have m: "\<not> match_at alnum lit False (c # v' @ s)"
      using match_run [OF lit v s] cv by simp
    have "re_sub alnum lit rep False (c # v' @ s) = c # re_sub alnum lit rep True (v' @ s)"
      using m wc by simp
    then have "re_sub alnum lit rep False (v @ s) = v @ re_sub alnum lit rep True s"
      unfolding cv using re_sub_inside [OF wv'] by simp
    then show ?thesis
      using False re_sub_after_word [OF lit s] by simp
  qed
qed

lemma re_sub_identity:
  assumes lit: "word_literal alnum lit"
  shows "lit \<notin> set (whole_words alnum s) \<Longrightarrow> re_sub alnum lit rep False s = s"
proof (induction s rule: word_runs_induct [where alnum = alnum])
  case Nil
  then show ?case by simp
next
  case (Sep c cs)
  then show ?case by (simp add: re_sub_sep [OF lit] whole_words_sep del: re_sub.simps(2))
next
  case (Run v s)
  then show ?case by (auto simp add: re_sub_run [OF lit] whole_words_run)
qed

lemma whole_words_re_sub:
  assumes lit: "word_literal alnum lit"
  shows "set (whole_words alnum (re_sub alnum lit rep False s)) \<subseteq>
         (set (whole_words alnum s) - {lit}) \<union> set (whole_words alnum rep)"
proof (induction s rule: word_runs_induct [where alnum = alnum])
  case Nil
  then show ?case by (simp add: whole_words_def)
next
  case (Sep c cs)
  then show ?case by (simp add: re_sub_sep [OF lit] whole_words_sep del: re_sub.simps(2))
next
  case (Run v s)
  have k: "\<not> next_is_word alnum (re_sub alnum lit rep False s)"
    using re_sub_keeps_sep [OF lit Run(3)] .
  have one: "whole_words alnum v = [v]"
    using whole_words_run [OF Run(1,2), of "[]"] by (simp add: next_is_word_def whole_words_def)
  show ?case
    using Run(4) by (auto simp add: re_sub_run [OF lit Run(1,2,3)] whole_words_append [OF k]
        whole_words_run [OF Run(1,2,3)] one)
qed

lemma re_search_sep:
  "word_literal alnum lit \<Longrightarrow> \<not> is_word alnum c \<Longrightarrow>
   re_search alnum lit prevw (c # cs) = re_search alnum lit False cs"
  using no_match_sep [of alnum lit c prevw cs] by simp

lemma re_search_inside:
  "list_all (is_word alnum) v \<Longrightarrow>
   re_search alnum lit True (v @ s) = re_search alnum lit True s"
  by (induction v) (simp_all add: no_match_inside)

lemma re_search_after_word:
  "word_literal alnum lit \<Longrightarrow> \<not> next_is_word alnum s \<Longrightarrow>
   re_search alnum lit True s = re_search alnum lit False s"
  by (cases s) (simp_all add: re_search_sep next_is_word_def del: re_search.simps(2))

lemma re_search_iff_whole_word:
  assumes lit: "word_literal alnum lit"
  shows "re_search alnum lit False s \<longleftrightarrow> lit \<in> set (whole_words alnum s)"
proof (induction s rule: word_runs_induct [where alnum = alnum])
  case Nil
  then show ?case by (simp add: whole_words_def)
next
  case (Sep c cs)
  then show ?case by (simp add: re_search_sep [OF lit] whole_words_sep del: re_search.simps(2))
next
  case (Run v s)
  obtain c v' where cv: "v = c # v'" using Run(1) by (cases v) auto
  have wc: "is_word alnum c" and wv': "list_all (is_word alnum) v'"
    using Run(2) cv by simp_all
  have litne: "lit \<noteq> []" using lit by (simp add: word_literal_def)
  have "re_search alnum lit False (v @ s) \<longleftrightarrow> v = lit \<or> re_search alnum lit True (v' @ s)"
    using match_run [OF lit Run(1,2,3)] cv wc litne by simp
  also have "\<dots> \<longleftrightarrow> v = lit \<or> re_search alnum lit False s"
    using re_search_inside [OF wv'] re_search_after_word [OF lit Run(3)] by simp
  finally show ?case
    using Run(4) by (auto simp: whole_words_run [OF Run(1,2,3)])
qed

lemma space_ascii: "is_space c \<Longrightarrow> c < 128 \<Longrightarrow> \<not> ascii_alnum c \<and> c \<noteq> 95"
  unfolding is_space_def ascii_alnum_def by linarith

lemma space_not_word:
  "unicode_table_ok alnum \<Longrightarrow> is_space c \<Longrightarrow> \<not> is_word alnum c"
  using space_ascii [of c] by (simp add: unicode_table_ok_def is_word_def)

lemma blank_not_word: "\<not> is_word alnum 32"
  by (simp add: is_word_def ascii_alnum_def)

lemma whole_words_join:
  "whole_words alnum (join_str [32] ts) = concat (map (whole_words alnum) ts)"
proof (induction "[32::nat]" ts rule: join_str.induct)
  case 1
  then show ?case by (simp add: whole_words_def)
next
  case (2 x)
  then show ?case by simp
next
  case (3 x y ys)
  have "whole_words alnum (x @ 32 # join_str [32] (y # ys)) =
        whole_words alnum x @ whole_words alnum (join_str [32] (y # ys))"
    unfolding whole_words_def by (rule words_acc_split [OF blank_not_word])
  then show ?case using 3 by simp
qed

lemma whole_words_split_ws:
  assumes ok: "unicode_table_ok alnum"
  shows "concat (map (whole_words alnum) (split_ws cur s)) = whole_words alnum (cur @ s)"
proof (induction s arbitrary: cur)
  case Nil
  then show ?case by (simp add: whole_words_def)
next
  case (Cons c cs)
  show ?case
  proof (cases "is_space c")
    case True
    then have nw: "\<not> is_word alnum c" by (rule space_not_word [OF ok])
    have "whole_words alnum (cur @ c # cs) = whole_words alnum cur @ whole_words alnum cs"
      unfolding whole_words_def by (rule words_acc_split [OF nw])
    then show ?thesis using True Cons [of "[]"] by (simp add: whole_words_def)
  next
    case False
    then show ?thesis using Cons [of "cur @ [c]"] by simp
  qed
qed

lemma split_ws_tokens:
  "list_all (\<lambda>c. \<not> is_space c) cur \<Longrightarrow> list_all token (split_ws cur s)"
  by (induction s arbitrary: cur) (simp_all add: token_def)

lemma split_ws_run:
  "list_all (\<lambda>c. \<not> is_space c) t \<Longrightarrow> split_ws cur (t @ s) = split_ws (cur @ t) s"
  by (induction t arbitrary: cur) simp_all

lemma split_ws_join:
  "list_all token ts \<Longrightarrow> split_ws [] (join_str [32] ts) = ts"
proof (induction "[32::nat]" ts rule: join_str.induct)
  case 1
  then show ?case by simp
next
  case (2 x)
  then show ?case using split_ws_run [of x "[]" "[]"] by (simp add: token_def)
next
  case (3 x y ys)
  have sp: "is_space 32" by (simp add: is_space_def)
  have "split_ws [] (x @ 32 # join_str [32] (y # ys)) = split_ws x (32 # join_str [32] (y # ys))"
    using 3(2) split_ws_run [of x "[]"] by (simp add: token_def)
  also have "\<dots> = x # split_ws [] (join_str [32] (y # ys))"
    using 3(2) sp by (simp add: token_def)
  finally show ?case using 3 by simp
qed

lemma collapse_idem:
  "join_str [32] (split_ws [] (join_str [32] (split_ws [] s))) = join_str [32] (split_ws [] s)"
  using split_ws_join [OF split_ws_tokens [of "[]" s]] by simp

lemma apply_substitutions_snoc:
  "apply_substitutions alnum (table @ [(p, r)]) text =
   re_sub alnum p r False (apply_substitutions alnum table text)"
  by (simp add: apply_substitutions_def)

lemma apply_substitutions_identity:
  "list_all (\<lambda>(p, r). word_literal alnum p \<and> p \<notin> set (whole_words alnum text)) table \<Longrightarrow>
   apply_substitutions alnum table text = text"
proof (induction table rule: rev_induct)
  case Nil
  then show ?case by (simp add: apply_substitutions_def)
next
  case (snoc x table)
  obtain p r where x: "x = (p, r)" by (cases x)
  show ?case using snoc unfolding x apply_substitutions_snoc
    by (simp add: re_sub_identity)
qed

lemma apply_substitutions_clears:
  assumes lits: "list_all (\<lambda>(p, r). word_literal alnum p) table"
    and clean: "\<And>p r q. (p, r) \<in> set table \<Longrightarrow> q \<in> A \<Longrightarrow> q \<notin> set (whole_words alnum r)"
    and sub: "fst ` set table \<subseteq> A"
  shows "\<forall>q \<in> fst ` set table. q \<notin> set (whole_words alnum (apply_substitutions alnum table text))"
  using lits clean sub
proof (induction table rule: rev_induct)
  case Nil
  then show ?case by simp
next
  case (snoc x table)
  obtain p r where x: "x = (p, r)" by (cases x)
  have lit: "word_literal alnum p" using snoc(2) x by simp
  have ih: "\<forall>q \<in> fst ` set table.
      q \<notin> set (whole_words alnum (apply_substitutions alnum table text))"
    using snoc by (auto simp: list_all_iff)
  have sub: "set (whole_words alnum (apply_substitutions alnum (table @ [x]) text)) \<subseteq>
      (set (whole_words alnum (apply_substitutions alnum table text)) - {p}) \<union>
      set (whole_words alnum r)"
    unfolding x apply_substitutions_snoc by (rule whole_words_re_sub [OF lit])
  have r: "\<forall>q \<in> fst ` set (table @ [x]). q \<notin> set (whole_words alnum r)"
    using snoc(3) [of p r] snoc(4) x by auto
  show ?case
  proof
    fix q assume q: "q \<in> fst ` set (table @ [x])"
    show "q \<notin> set (whole_words alnum (apply_substitutions alnum (table @ [x]) text))"
    proof
      assume "q \<in> set (whole_words alnum (apply_substitutions alnum (table @ [x]) text))"
      with sub have "(q \<in> set (whole_words alnum (apply_substitutions alnum table text)) \<and> q \<noteq> p)
                     \<or> q \<in> set (whole_words alnum r)" by auto
      with r q ih x show False by auto
    qed
  qed
qed

lemma substitutions_literals:
  "list_all (\<lambda>(p, r). word_literal alnum p) substitutions"
  by (simp add: substitutions_def word_literal_def ascii_def is_word_def ascii_alnum_def)

subsection \<open>The normalizer is idempotent\<close>

lemma sample_alnum_ok: "unicode_table_ok sample_alnum"
  unfolding unicode_table_ok_def is_space_def sample_alnum_def by linarith

lemma replacements_free_of_acronyms:
  "list_all (\<lambda>(p, r). list_all (\<lambda>(q, r'). q \<notin> set (whole_words alnum r)) substitutions)
     substitutions"
  by (simp add: substitutions_def whole_words_def ascii_def is_word_def ascii_alnum_def)

lemma substitutions_clear:
  "(q, r) \<in> set substitutions \<Longrightarrow>
   q \<notin> set (whole_words alnum (apply_substitutions alnum substitutions text))"
proof -
  assume q: "(q, r) \<in> set substitutions"
  have "\<forall>q \<in> fst ` set substitutions.
      q \<notin> set (whole_words alnum (apply_substitutions alnum substitutions text))"
  proof (rule apply_substitutions_clears [where A = "fst ` set substitutions"])
    show "list_all (\<lambda>(p, r). word_literal alnum p) substitutions"
      by (rule substitutions_literals)
  next
    fix p r q
    assume "(p, r) \<in> set substitutions" "q \<in> fst ` set substitutions"
    then show "q \<notin> set (whole_words alnum r)"
      using replacements_free_of_acronyms [of alnum] by (fastforce simp: list_all_iff)
  qed simp
  with q show ?thesis by force
qed

lemma hints_fixed_point:
  assumes ok: "unicode_table_ok alnum"
  shows "apply_pronunciation_hints alnum (apply_pronunciation_hints alnum text) =
         apply_pronunciation_hints alnum text"
proof -
  define u where "u = apply_substitutions alnum substitutions text"
  define n where "n = join_str [32] (split_ws [] u)"
  have n: "apply_pronunciation_hints alnum text = n"
    by (simp add: apply_pronunciation_hints_def n_def u_def ascii_def)
  have words: "whole_words alnum n = whole_words alnum u"
    using whole_words_split_ws [OF ok, of "[]" u] by (simp add: n_def whole_words_join)
  have "list_all (\<lambda>(p, r). word_literal alnum p \<and> p \<notin> set (whole_words alnum n)) substitutions"
    unfolding list_all_iff
  proof (rule ballI, clarify, rule conjI)
    fix p r assume pr: "(p, r) \<in> set substitutions"
    show "word_literal alnum p"
      using substitutions_literals [of alnum] pr by (auto simp: list_all_iff)
    show "p \<notin> set (whole_words alnum n)"
      using substitutions_clear [OF pr, of alnum "text"] by (simp add: words u_def)
  qed
  then have "apply_substitutions alnum substitutions n = n"
    by (rule apply_substitutions_identity)
  then have "apply_pronunciation_hints alnum n = join_str [32] (split_ws [] n)"
    by (simp add: apply_pronunciation_hints_def ascii_def)
  also have "\<dots> = n" unfolding n_def by (rule collapse_idem)
  finally show ?thesis by (simp add: n)
qed

lemma acronym_free_unchanged:
  assumes "\<not> contains_acronym alnum text"
  shows "apply_substitutions alnum substitutions text = text"
proof (rule apply_substitutions_identity, unfold list_all_iff, rule ballI, clarify, rule conjI)
  fix p r assume pr: "(p, r) \<in> set substitutions"
  show lit: "word_literal alnum p"
    using substitutions_literals [of alnum] pr by (auto simp: list_all_iff)
  have "\<not> re_search alnum p False text"
    using assms pr by (auto simp: contains_acronym_def list_ex_iff)
  then show "p \<notin> set (whole_words alnum text)"
    by (simp add: re_search_iff_whole_word [OF lit])
qed

text \<open>
  Claim C7. The normalizer is a function of its input text alone, defined by recursions that
  terminate (\<open>re_sub\<close> by its termination proof, the others structurally), and the source has
  no raise on its path, so the embedding has no error value: every input has exactly one
  output. On a text in which no pattern of the table is found, the substitutions change
  nothing, the result is the text with its white space collapsed, and a second run gives the
  same result.
\<close>

theorem hints_total_deterministic_idempotent_without_acronyms:
  assumes "unicode_table_ok alnum" and "\<not> contains_acronym alnum text"
  shows "apply_pronunciation_hints alnum text = join_str (ascii '' '') (split_ws [] text) \<and>
         apply_pronunciation_hints alnum (apply_pronunciation_hints alnum text) =
         apply_pronunciation_hints alnum text"
proof -
  have same: "apply_pronunciation_hints alnum text = join_str (ascii '' '') (split_ws [] text)"
    using acronym_free_unchanged [OF assms(2)] by (simp add: apply_pronunciation_hints_def)
  have "apply_pronunciation_hints alnum (apply_pronunciation_hints alnum text) =
        apply_pronunciation_hints alnum text"
    by (rule hints_fixed_point [OF assms(1)])
  with same show ?thesis by simp
qed

theorem hints_without_acronyms_witness:
  "unicode_table_ok sample_alnum \<and>
   \<not> contains_acronym sample_alnum (ascii ''NATOS  and  ICEd tea '') \<and>
   apply_pronunciation_hints sample_alnum (ascii ''NATOS  and  ICEd tea '') =
     ascii ''NATOS and ICEd tea'' \<and>
   apply_pronunciation_hints sample_alnum (ascii ''NATOS and ICEd tea'') =
     ascii ''NATOS and ICEd tea''"
proof -
  have free: "\<not> contains_acronym sample_alnum (ascii ''NATOS  and  ICEd tea '')"
    by (simp add: contains_acronym_def substitutions_def ascii_def match_at_def
        word_boundary_def next_is_word_def is_word_def ascii_alnum_def)
  have col: "join_str (ascii '' '') (split_ws [] (ascii ''NATOS  and  ICEd tea '')) =
        ascii ''NATOS and ICEd tea''"
    by (simp add: ascii_def is_space_def)
  note inst = hints_total_deterministic_idempotent_without_acronyms [OF sample_alnum_ok free]
  have a: "apply_pronunciation_hints sample_alnum (ascii ''NATOS  and  ICEd tea '') =
      ascii ''NATOS and ICEd tea''"
    using conjunct1 [OF inst] by (simp only: col)
  have b: "apply_pronunciation_hints sample_alnum (ascii ''NATOS and ICEd tea'') =
      ascii ''NATOS and ICEd tea''"
    using conjunct2 [OF inst] by (simp only: a)
  show ?thesis
    using sample_alnum_ok free a b by (simp only: simp_thms)
qed

text \<open>
  Claim C9. No replacement of the table contains a match of a pattern of the table, collapsing
  white space twice is collapsing it once, and the normalizer applied twice gives what it gives
  applied once, on every input text.
\<close>

theorem hints_idempotent_everywhere:
  assumes "unicode_table_ok alnum"
  shows "list_all (\<lambda>(p, r). list_all (\<lambda>(q, r'). \<not> re_search alnum q False r) substitutions)
           substitutions \<and>
         join_str (ascii '' '') (split_ws [] (join_str (ascii '' '') (split_ws [] text))) =
           join_str (ascii '' '') (split_ws [] text) \<and>
         apply_pronunciation_hints alnum (apply_pronunciation_hints alnum text) =
           apply_pronunciation_hints alnum text"
proof (intro conjI)
  show "list_all (\<lambda>(p, r). list_all (\<lambda>(q, r'). \<not> re_search alnum q False r) substitutions)
           substitutions"
    unfolding list_all_iff
  proof (clarify)
    fix p r q r'
    assume pr: "(p, r) \<in> set substitutions" and q: "(q, r') \<in> set substitutions"
      and s: "re_search alnum q False r"
    have lit: "word_literal alnum q"
      using substitutions_literals [of alnum] q by (auto simp: list_all_iff)
    have "q \<notin> set (whole_words alnum r)"
      using replacements_free_of_acronyms [of alnum] pr q by (fastforce simp: list_all_iff)
    with s show False by (simp add: re_search_iff_whole_word [OF lit])
  qed
  show "join_str (ascii '' '') (split_ws [] (join_str (ascii '' '') (split_ws [] text))) =
           join_str (ascii '' '') (split_ws [] text)"
    using collapse_idem [of "text"] by (simp add: ascii_def)
  show "apply_pronunciation_hints alnum (apply_pronunciation_hints alnum text) =
           apply_pronunciation_hints alnum text"
    by (rule hints_fixed_point [OF assms])
qed

theorem hints_idempotent_witness:
  "unicode_table_ok sample_alnum \<and>
   apply_pronunciation_hints sample_alnum (ascii ''NATO  and the FBI,  NATOS ICE-ICE _DHS  '') =
     ascii ''NAY-toh and the F B I, NATOS I C E-I C E _DHS'' \<and>
   apply_pronunciation_hints sample_alnum
     (apply_pronunciation_hints sample_alnum (ascii ''NATO  and the FBI,  NATOS ICE-ICE _DHS  '')) =
     ascii ''NAY-toh and the F B I, NATOS I C E-I C E _DHS''"
proof -
  have v: "apply_pronunciation_hints sample_alnum (ascii ''NATO  and the FBI,  NATOS ICE-ICE _DHS  '') =
     ascii ''NAY-toh and the F B I, NATOS I C E-I C E _DHS''"
    by (simp add: apply_pronunciation_hints_def apply_substitutions_def substitutions_def ascii_def
        match_at_def word_boundary_def next_is_word_def is_word_def ascii_alnum_def is_space_def)
  note inst = hints_idempotent_everywhere [OF sample_alnum_ok,
        of "ascii ''NATO  and the FBI,  NATOS ICE-ICE _DHS  ''"]
  have "apply_pronunciation_hints sample_alnum
     (apply_pronunciation_hints sample_alnum (ascii ''NATO  and the FBI,  NATOS ICE-ICE _DHS  '')) =
     ascii ''NAY-toh and the F B I, NATOS I C E-I C E _DHS''"
    using inst unfolding v by (simp only:)
  then show ?thesis
    using sample_alnum_ok v by (simp only: simp_thms)
qed

lemma io_bind_Inl [simp]: "io_bind (Inl e, w) f = (Inl e, w)"
  by (simp add: io_bind_def)

lemma io_bind_Inr [simp]: "io_bind (Inr x, w) f = f x w"
  by (simp add: io_bind_def)

subsection \<open>The argument checks of the audio functions\<close>

text \<open>
  Claim C4. Given fewer than two segments the combiner raises \<^verbatim>\<open>ValueError\<close> (the
  specification's InvalidArgument) and the world is as before: no temporary directory was
  entered, no file written, ffmpeg not run. Given two or more it does not raise that error,
  and the first thing it does is to enter the temporary directory.
\<close>

theorem concatenate_rejects_fewer_than_two:
  "(length audio_segments < 2 \<longrightarrow>
      concatenate_audio_segments env audio_segments output_format w =
        (Inl (ValueError (ascii ''Need at least two audio segments to concatenate'')), w)) \<and>
   (2 \<le> length audio_segments \<longrightarrow>
      (\<forall>msg. fst (concatenate_audio_segments env audio_segments output_format w) \<noteq>
              Inl (ValueError msg)) \<and>
      prefix (w @ [Enter_temp_dir])
        (snd (concatenate_audio_segments env audio_segments output_format w)))"
  by (auto simp: concatenate_audio_segments_def Let_def split: option.splits)

theorem concatenate_rejects_witness:
  "concatenate_audio_segments sample_env [] (ascii ''wav'') [] =
     (Inl (ValueError (ascii ''Need at least two audio segments to concatenate'')), []) \<and>
   concatenate_audio_segments sample_env [[1, 2, 3]] (ascii ''wav'') [Mkdir (Dir (ascii ''output''))] =
     (Inl (ValueError (ascii ''Need at least two audio segments to concatenate'')),
      [Mkdir (Dir (ascii ''output''))]) \<and>
   fst (concatenate_audio_segments sample_env [[1], [2]] (ascii ''wav'') []) = Inr [3]"
proof -
  have a: "length ([] :: bytes list) < 2" and b: "length [[1, 2, 3 :: 8 word]] < 2" by simp_all
  have c: "fst (concatenate_audio_segments sample_env [[1], [2]] (ascii ''wav'') []) = Inr [3]"
    by (simp add: concatenate_audio_segments_def sample_env_def enumerate_eq_zip)
  show ?thesis
    using concatenate_rejects_fewer_than_two [of "[]" sample_env "ascii ''wav''" "[]"]
      concatenate_rejects_fewer_than_two [of "[[1, 2, 3]]" sample_env "ascii ''wav''"
        "[Mkdir (Dir (ascii ''output''))]"] a b c
    by simp
qed

text \<open>
  Claim C5. For a duration less than or equal to zero the silence generator raises
  \<^verbatim>\<open>ValueError\<close> and the world is as before. For a duration greater than zero the check
  passes: no \<^verbatim>\<open>ValueError\<close>, and the function enters the temporary directory, runs ffmpeg
  once and leaves the directory.
\<close>

theorem silence_rejects_nonpositive_duration:
  "(float_le_zero duration_seconds \<longrightarrow>
      synthesize_silence_segment env duration_seconds sample_rate w =
        (Inl (ValueError (ascii ''duration_seconds must be greater than zero'')), w)) \<and>
   (float_gt_zero duration_seconds \<longrightarrow>
      (\<forall>msg. fst (synthesize_silence_segment env duration_seconds sample_rate w) \<noteq>
              Inl (ValueError msg)) \<and>
      snd (synthesize_silence_segment env duration_seconds sample_rate w) =
        w @ [Enter_temp_dir,
             Run_ffmpeg (Silence duration_seconds sample_rate)
               (ffmpeg_reply env (w @ [Enter_temp_dir]) (Silence duration_seconds sample_rate)),
             Leave_temp_dir])"
  by (cases duration_seconds)
     (auto simp: synthesize_silence_segment_def Let_def split: option.splits)

theorem silence_rejects_witness:
  "float_le_zero (Finite 0) \<and> float_le_zero (Finite (- 3 / 2)) \<and> float_le_zero NegInf \<and>
   synthesize_silence_segment sample_env (Finite 0) 44100 [] =
     (Inl (ValueError (ascii ''duration_seconds must be greater than zero'')), []) \<and>
   synthesize_silence_segment sample_env (Finite (- 3 / 2)) 44100 [] =
     (Inl (ValueError (ascii ''duration_seconds must be greater than zero'')), []) \<and>
   synthesize_silence_segment sample_env NegInf 44100 [] =
     (Inl (ValueError (ascii ''duration_seconds must be greater than zero'')), []) \<and>
   float_gt_zero (Finite (8 / 10)) \<and>
   synthesize_silence_segment sample_env (Finite (8 / 10)) 44100 [] =
     (Inr [1], [Enter_temp_dir, Run_ffmpeg (Silence (Finite (8 / 10)) 44100) (Some [1]),
                Leave_temp_dir])"
proof -
  have run: "synthesize_silence_segment sample_env (Finite (8 / 10)) 44100 [] =
     (Inr [1], [Enter_temp_dir, Run_ffmpeg (Silence (Finite (8 / 10)) 44100) (Some [1]),
                Leave_temp_dir])"
    by (simp add: synthesize_silence_segment_def sample_env_def)
  show ?thesis
    using silence_rejects_nonpositive_duration [of "Finite 0" sample_env 44100 "[]"]
      silence_rejects_nonpositive_duration [of "Finite (- 3 / 2)" sample_env 44100 "[]"]
      silence_rejects_nonpositive_duration [of NegInf sample_env 44100 "[]"] run
    by simp
qed

subsection \<open>The host of the object store\<close>



lemma strip_chars_ends:
  assumes "rev (dropWhile P (rev (dropWhile P s))) = t" and "t \<noteq> []"
  shows "\<not> P (hd t) \<and> \<not> P (last t)"
proof -
  define u where "u = dropWhile P s"
  have u: "u \<noteq> []"
  proof
    assume "u = []"
    then have "dropWhile P s = []" by (simp only: u_def)
    then have "t = []" using assms(1) by (simp only: rev.simps dropWhile.simps)
    with assms(2) show False by simp
  qed
  then have hdu: "\<not> P (hd u)" unfolding u_def by (rule hd_dropWhile)
  define v where "v = dropWhile P (rev u)"
  have t: "t = rev v" using assms by (simp add: v_def u_def)
  have v: "v \<noteq> []" using assms t by simp
  then have hdv: "\<not> P (hd v)" unfolding v_def by (rule hd_dropWhile)
  have lastt: "last t = hd v" using v t by (simp add: last_rev)
  obtain k where k: "v = drop k (rev u)"
    unfolding v_def by (metis dropWhile_eq_drop)
  have "last v = last (rev u)" using v k by simp
  then have "hd t = hd u" using t v u by (simp add: hd_rev last_rev)
  with hdu hdv lastt show ?thesis by simp
qed


lemma clean_region_ends:
  "clean_region region \<noteq> [] \<Longrightarrow>
   hd (clean_region region) \<noteq> 47 \<and> last (clean_region region) \<noteq> 47"
  using strip_chars_ends [of "\<lambda>c. c \<in> set (ascii ''/'')" "strip_scheme (str_strip region)"
      "clean_region region"]
  by (simp add: clean_region_def str_strip_chars_def ascii_def)

text \<open>
  Claim C6, as stated, fails: whatever the root domain and the appended string are taken to
  be, the sentence cannot hold for every hint. The empty hint gives the default host
  \<^verbatim>\<open>storage.bunnycdn.com\<close>, so the appended string would be that host; the hint \<^verbatim>\<open>de\<close> gives
  \<^verbatim>\<open>de.storage.bunnycdn.com\<close>, so it would begin with a dot.
\<close>

theorem host_claim_counterexample:
  "\<not> (\<exists>root_domain appended. \<forall>region.
        normalize_bunny_storage_host region = spec_normalize_host root_domain appended region)"
proof
  assume "\<exists>root_domain appended. \<forall>region.
        normalize_bunny_storage_host region = spec_normalize_host root_domain appended region"
  then obtain r a where all: "\<And>region.
      normalize_bunny_storage_host region = spec_normalize_host r a region" by blast
  have code_empty: "normalize_bunny_storage_host [] = ascii ''storage.bunnycdn.com''"
    by (simp add: normalize_bunny_storage_host_def clean_region_def strip_scheme_def
        str_strip_def str_strip_chars_def ascii_def)
  have code_de: "normalize_bunny_storage_host (ascii ''de'') = ascii ''de.storage.bunnycdn.com''"
    by (simp add: normalize_bunny_storage_host_def clean_region_def strip_scheme_def
        str_strip_def str_strip_chars_def removeprefix_def ascii_def is_space_def suffix_def)
  have spec_empty: "spec_normalize_host r a [] = (if r = [] then [] else a)"
    by (simp add: spec_normalize_host_def spec_clean_region_def strip_scheme_def ascii_def)
  have spec_de: "spec_normalize_host r a (ascii ''de'') =
      (if suffix r (ascii ''de'') then ascii ''de'' else ascii ''de'' @ a)"
    by (simp add: spec_normalize_host_def spec_clean_region_def strip_scheme_def ascii_def)
  from all [of "[]"] code_empty spec_empty have a1: "a = ascii ''storage.bunnycdn.com''"
    by (auto simp: ascii_def split: if_splits)
  from all [of "ascii ''de''"] code_de spec_de
  have "ascii ''de.storage.bunnycdn.com'' = ascii ''de'' \<or>
        ascii ''de.storage.bunnycdn.com'' = ascii ''de'' @ a"
    by (auto split: if_splits)
  with a1 show False by (simp add: ascii_def)
qed

text \<open>
  Claim C6, amended. The hint is stripped of surrounding white space, then of one leading
  \<^verbatim>\<open>https://\<close> or \<^verbatim>\<open>http://\<close>, then of leading and trailing slashes. If nothing is left the host
  is \<^verbatim>\<open>storage.bunnycdn.com\<close>; if what is left ends in \<^verbatim>\<open>.bunnycdn.com\<close> it is the host,
  unchanged; otherwise the host is what is left followed by \<^verbatim>\<open>.storage.bunnycdn.com\<close>. What
  is left neither starts nor ends with a slash, and the host always ends in \<^verbatim>\<open>bunnycdn.com\<close>
  (in \<^verbatim>\<open>.bunnycdn.com\<close> once a character is put before it).
\<close>

theorem host_normalization_cases:
  "(clean_region region = [] \<longrightarrow>
      normalize_bunny_storage_host region = ascii ''storage.bunnycdn.com'') \<and>
   (clean_region region \<noteq> [] \<and> suffix (ascii ''.bunnycdn.com'') (clean_region region) \<longrightarrow>
      normalize_bunny_storage_host region = clean_region region) \<and>
   (clean_region region \<noteq> [] \<and> \<not> suffix (ascii ''.bunnycdn.com'') (clean_region region) \<longrightarrow>
      normalize_bunny_storage_host region = clean_region region @ ascii ''.storage.bunnycdn.com'') \<and>
   (clean_region region \<noteq> [] \<longrightarrow>
      hd (clean_region region) \<noteq> 47 \<and> last (clean_region region) \<noteq> 47) \<and>
   suffix (ascii ''.bunnycdn.com'') (ascii ''x'' @ normalize_bunny_storage_host region)"
proof -
  have tail: "suffix (ascii ''.bunnycdn.com'') (ascii ''x'' @ normalize_bunny_storage_host region)"
  proof -
    have a: "suffix (ascii ''.bunnycdn.com'') (ascii ''x'' @ ascii ''storage.bunnycdn.com'')"
      by (simp add: ascii_def suffix_def)
    have b: "suffix (ascii ''.bunnycdn.com'') (ascii ''.storage.bunnycdn.com'')"
      by (simp add: ascii_def suffix_def)
    show ?thesis
      using a b by (auto simp: normalize_bunny_storage_host_def Let_def suffix_append)
  qed
  show ?thesis
    using tail clean_region_ends [of region]
    by (simp add: normalize_bunny_storage_host_def Let_def)
qed

theorem host_normalization_witness:
  "clean_region (ascii '' https://de/ '') = ascii ''de'' \<and>
   normalize_bunny_storage_host (ascii '' https://de/ '') = ascii ''de.storage.bunnycdn.com'' \<and>
   clean_region (ascii ''http://uk.storage.bunnycdn.com//'') = ascii ''uk.storage.bunnycdn.com'' \<and>
   normalize_bunny_storage_host (ascii ''http://uk.storage.bunnycdn.com//'') =
     ascii ''uk.storage.bunnycdn.com'' \<and>
   normalize_bunny_storage_host (ascii ''/de'') = ascii ''de.storage.bunnycdn.com'' \<and>
   normalize_bunny_storage_host [] = ascii ''storage.bunnycdn.com''"
proof -
  have c1: "clean_region (ascii '' https://de/ '') = ascii ''de''"
    by (simp add: clean_region_def strip_scheme_def str_strip_def str_strip_chars_def
        removeprefix_def ascii_def is_space_def)
  have c2: "clean_region (ascii ''http://uk.storage.bunnycdn.com//'') =
      ascii ''uk.storage.bunnycdn.com''"
    by (simp add: clean_region_def strip_scheme_def str_strip_def str_strip_chars_def
        removeprefix_def ascii_def is_space_def)
  have c3: "clean_region (ascii ''/de'') = ascii ''de''"
    by (simp add: clean_region_def strip_scheme_def str_strip_def str_strip_chars_def
        removeprefix_def ascii_def is_space_def)
  have c4: "clean_region [] = []"
    by (simp add: clean_region_def strip_scheme_def str_strip_def str_strip_chars_def ascii_def)
  have s1: "\<not> suffix (ascii ''.bunnycdn.com'') (ascii ''de'')" "ascii ''de'' \<noteq> []"
    by (simp_all add: ascii_def suffix_def)
  have s2: "suffix (ascii ''.bunnycdn.com'') (ascii ''uk.storage.bunnycdn.com'')"
      "ascii ''uk.storage.bunnycdn.com'' \<noteq> []"
    by (simp_all add: ascii_def suffix_def)
  have app: "ascii ''de'' @ ascii ''.storage.bunnycdn.com'' = ascii ''de.storage.bunnycdn.com''"
    by (simp add: ascii_def)
  show ?thesis
    using host_normalization_cases [of "ascii '' https://de/ ''"]
      host_normalization_cases [of "ascii ''http://uk.storage.bunnycdn.com//''"]
      host_normalization_cases [of "ascii ''/de''"]
      host_normalization_cases [of "[]"]
    unfolding c1 c2 c3 c4 using s1 s2 app by simp
qed



subsection \<open>The name of the run directory\<close>

lemma dec_nonempty: "dec n \<noteq> []"
  by (subst dec.simps) simp

lemma dec_digit: "n < 10 \<Longrightarrow> dec n = [48 + n]"
  by (subst dec.simps) simp

lemma dec_step: "10 \<le> n \<Longrightarrow> dec n = dec (n div 10) @ [48 + n mod 10]"
  by (subst dec.simps) simp

lemma dec_inj: "dec a = dec b \<Longrightarrow> a = b"
proof (induction a arbitrary: b rule: dec.induct)
  case (1 n)
  show ?case
  proof (cases "n < 10")
    case True
    show ?thesis
    proof (cases "b < 10")
      case True
      then have "dec b = [48 + b]" by (rule dec_digit)
      moreover have "dec n = [48 + n]" using \<open>n < 10\<close> by (rule dec_digit)
      ultimately show ?thesis using 1(2) by simp
    next
      case False
      then have "10 \<le> b" by simp
      then have "dec b = dec (b div 10) @ [48 + b mod 10]" by (rule dec_step)
      moreover have "dec n = [48 + n]" using True by (rule dec_digit)
      ultimately show ?thesis using 1(2) dec_nonempty [of "b div 10"] by simp
    qed
  next
    case False
    then have "10 \<le> n" by simp
    then have n: "dec n = dec (n div 10) @ [48 + n mod 10]" by (rule dec_step)
    show ?thesis
    proof (cases "b < 10")
      case True
      then have "dec b = [48 + b]" by (rule dec_digit)
      with n 1(2) dec_nonempty [of "n div 10"] show ?thesis by simp
    next
      case b: False
      then have "10 \<le> b" by simp
      then have "dec b = dec (b div 10) @ [48 + b mod 10]" by (rule dec_step)
      with n 1(2) have "dec (n div 10) = dec (b div 10)" and m: "n mod 10 = b mod 10"
        by simp_all
      with 1(1) [OF False] have "n div 10 = b div 10" by simp
      then have "n div 10 * 10 + n mod 10 = b div 10 * 10 + b mod 10" using m by simp
      then show ?thesis by simp
    qed
  qed
qed

lemma zero_pad_two: "n < 100 \<Longrightarrow> zero_pad 2 n = [48 + n div 10, 48 + n mod 10]"
proof (cases "n < 10")
  case True
  then have "dec n = [48 + n]" by (rule dec_digit)
  with True show ?thesis by (simp add: zero_pad_def)
next
  case False
  assume "n < 100"
  with False have small: "n div 10 < 10" by simp
  from False have "10 \<le> n" by simp
  then have "dec n = dec (n div 10) @ [48 + n mod 10]" by (rule dec_step)
  moreover have "dec (n div 10) = [48 + n div 10]" using small by (rule dec_digit)
  ultimately have "dec n = [48 + n div 10, 48 + n mod 10]" by simp
  then show ?thesis by (simp add: zero_pad_def)
qed

lemma dec_four:
  assumes "1000 \<le> y" "y \<le> 9999"
  shows "dec y = [48 + y div 1000, 48 + y div 100 mod 10, 48 + y div 10 mod 10, 48 + y mod 10]"
proof -
  have "10 \<le> y" using assms by simp
  then have a: "dec y = dec (y div 10) @ [48 + y mod 10]" by (rule dec_step)
  have "10 \<le> y div 10" using assms by simp
  then have b: "dec (y div 10) = dec (y div 10 div 10) @ [48 + y div 10 mod 10]"
    by (rule dec_step)
  have "10 \<le> y div 10 div 10" using assms by simp
  then have c: "dec (y div 10 div 10) =
      dec (y div 10 div 10 div 10) @ [48 + y div 10 div 10 mod 10]"
    by (rule dec_step)
  have "y div 10 div 10 div 10 < 10" using assms by simp
  then have d: "dec (y div 10 div 10 div 10) = [48 + y div 10 div 10 div 10]"
    by (rule dec_digit)
  have e: "y div 10 div 10 div 10 = y div 1000" "y div 10 div 10 mod 10 = y div 100 mod 10"
    by (simp_all add: div_mult2_eq [symmetric])
  show ?thesis unfolding a b c d by (simp add: e)
qed

lemma days_in_month_le: "days_in_month y m \<le> 31"
  by (simp add: days_in_month_def)

lemma two_digits_inj:
  assumes "a div 10 = b div 10" and "a mod 10 = b mod 10"
  shows "(a::nat) = b"
proof -
  have "a div 10 * 10 + a mod 10 = b div 10 * 10 + b mod 10" using assms by simp
  then show ?thesis by simp
qed

lemma stamp_tail:
  assumes "valid_datetime t"
  shows "strftime_run_stamp t =
     dec (dt_year t) @
     [48 + dt_month t div 10, 48 + dt_month t mod 10, 48 + dt_day t div 10, 48 + dt_day t mod 10,
      84,
      48 + dt_hour t div 10, 48 + dt_hour t mod 10, 48 + dt_minute t div 10,
      48 + dt_minute t mod 10, 48 + dt_second t div 10, 48 + dt_second t mod 10,
      90]"
proof -
  have m: "dt_month t < 100" and h: "dt_hour t < 100" and mi: "dt_minute t < 100"
    and s: "dt_second t < 100"
    using assms by (simp_all add: valid_datetime_def)
  have "dt_day t \<le> 31"
    using assms days_in_month_le [of "dt_year t" "dt_month t"] by (simp add: valid_datetime_def)
  then have d: "dt_day t < 100" by simp
  show ?thesis
    by (simp add: strftime_run_stamp_def zero_pad_two m d h mi s ascii_def)
qed

lemma stamp_inj:
  assumes v1: "valid_datetime t1" and v2: "valid_datetime t2"
    and eq: "strftime_run_stamp t1 = strftime_run_stamp t2"
  shows "dt_year t1 = dt_year t2 \<and> dt_month t1 = dt_month t2 \<and> dt_day t1 = dt_day t2 \<and>
         dt_hour t1 = dt_hour t2 \<and> dt_minute t1 = dt_minute t2 \<and> dt_second t1 = dt_second t2"
proof -
  have d1: "dt_day t1 < 100"
    using v1 days_in_month_le [of "dt_year t1" "dt_month t1"] by (simp add: valid_datetime_def)
  have d2: "dt_day t2 < 100"
    using v2 days_in_month_le [of "dt_year t2" "dt_month t2"] by (simp add: valid_datetime_def)
  define f where "f = (\<lambda>t :: datetime.
     [48 + dt_month t div 10, 48 + dt_month t mod 10, 48 + dt_day t div 10, 48 + dt_day t mod 10,
      84,
      48 + dt_hour t div 10, 48 + dt_hour t mod 10, 48 + dt_minute t div 10,
      48 + dt_minute t mod 10, 48 + dt_second t div 10, 48 + dt_second t mod 10,
      90 :: nat])"
  have s1: "strftime_run_stamp t1 = dec (dt_year t1) @ f t1"
    unfolding f_def by (rule stamp_tail [OF v1])
  have s2: "strftime_run_stamp t2 = dec (dt_year t2) @ f t2"
    unfolding f_def by (rule stamp_tail [OF v2])
  have len: "length (f t1) = length (f t2)" by (simp add: f_def)
  from eq have "dec (dt_year t1) @ f t1 = dec (dt_year t2) @ f t2"
    by (simp only: s1 s2)
  with len have split: "dec (dt_year t1) = dec (dt_year t2) \<and> f t1 = f t2"
    using append_eq_append_conv [of "dec (dt_year t1)" "dec (dt_year t2)" "f t1" "f t2"]
    by blast
  then have "f t1 = f t2" by simp
  then have fields:
      "dt_month t1 div 10 = dt_month t2 div 10 \<and> dt_month t1 mod 10 = dt_month t2 mod 10 \<and>
      dt_day t1 div 10 = dt_day t2 div 10 \<and> dt_day t1 mod 10 = dt_day t2 mod 10 \<and>
      dt_hour t1 div 10 = dt_hour t2 div 10 \<and> dt_hour t1 mod 10 = dt_hour t2 mod 10 \<and>
      dt_minute t1 div 10 = dt_minute t2 div 10 \<and> dt_minute t1 mod 10 = dt_minute t2 mod 10 \<and>
      dt_second t1 div 10 = dt_second t2 div 10 \<and> dt_second t1 mod 10 = dt_second t2 mod 10"
    unfolding f_def by simp
  note e = conjI [OF conjunct1 [OF split] fields]
  have "dt_year t1 = dt_year t2" using e dec_inj by blast
  moreover have "dt_month t1 = dt_month t2"
    by (rule two_digits_inj) (simp_all add: e)
  moreover have "dt_day t1 = dt_day t2"
    by (rule two_digits_inj) (simp_all add: e)
  moreover have "dt_hour t1 = dt_hour t2"
    by (rule two_digits_inj) (simp_all add: e)
  moreover have "dt_minute t1 = dt_minute t2"
    by (rule two_digits_inj) (simp_all add: e)
  moreover have "dt_second t1 = dt_second t2"
    by (rule two_digits_inj) (simp_all add: e)
  ultimately show ?thesis by simp
qed

lemma join_no_space:
  "list_all token ts \<Longrightarrow> list_all (\<lambda>c. \<not> is_space c) (join_str [45] ts)"
  by (induction "[45::nat]" ts rule: join_str.induct) (simp_all add: token_def is_space_def)

lemma topic_slug_shape:
  "topic_slug lower topic \<noteq> [] \<and> length (topic_slug lower topic) \<le> 60 \<and>
   list_all (\<lambda>c. \<not> is_space c) (topic_slug lower topic)"
proof -
  have "list_all (\<lambda>c. \<not> is_space c) (join_str [45] (split_ws [] (lower topic)))"
    by (rule join_no_space) (simp add: split_ws_tokens)
  then have "list_all (\<lambda>c. \<not> is_space c) (take 60 (join_str [45] (split_ws [] (lower topic))))"
    by (auto simp: list_all_iff dest: in_set_takeD)
  moreover have "list_all (\<lambda>c. \<not> is_space c) (ascii ''topic'')"
    by (simp add: ascii_def is_space_def)
  ultimately show ?thesis
    by (simp add: topic_slug_def Let_def ascii_def)
qed

text \<open>
  Claim C3. The name given to the run directory is the slug of the topic, an underscore and
  the stamp of the clock reading. The slug is the lowercased topic, its runs of white space
  replaced by single hyphens (none at the ends), cut to 60 code points, and \<^verbatim>\<open>topic\<close> when
  that is empty; it is never empty, at most 60 long and free of white space. For a reading in
  a year of four digits the stamp is YYYYMMDD, the letter T, HHMMSS and the letter Z. Two
  readings of the clock that are a second or more apart give different names for the same
  topic. (The readings are those of \<^verbatim>\<open>datetime.now(UTC)\<close>; the proof needs no fact about the
  slug for the last part, so it holds for any two calls with the same topic.)
\<close>

theorem run_directory_name_unique_per_second:
  "run_dir_name lower topic now = topic_slug lower topic @ ascii ''_'' @ strftime_run_stamp now \<and>
   topic_slug lower topic =
     (if take 60 (join_str (ascii ''-'') (split_ws [] (lower topic))) = [] then ascii ''topic''
      else take 60 (join_str (ascii ''-'') (split_ws [] (lower topic)))) \<and>
   topic_slug lower topic \<noteq> [] \<and> length (topic_slug lower topic) \<le> 60 \<and>
   list_all (\<lambda>c. \<not> is_space c) (topic_slug lower topic) \<and>
   (valid_datetime now \<and> 1000 \<le> dt_year now \<longrightarrow>
      strftime_run_stamp now =
        map (\<lambda>d. 48 + d)
          [dt_year now div 1000, dt_year now div 100 mod 10, dt_year now div 10 mod 10,
           dt_year now mod 10, dt_month now div 10, dt_month now mod 10,
           dt_day now div 10, dt_day now mod 10] @
        ascii ''T'' @
        map (\<lambda>d. 48 + d)
          [dt_hour now div 10, dt_hour now mod 10, dt_minute now div 10, dt_minute now mod 10,
           dt_second now div 10, dt_second now mod 10] @
        ascii ''Z'') \<and>
   (valid_datetime t1 \<and> valid_datetime t2 \<and> seconds_apart t1 t2 \<longrightarrow>
      run_dir_name lower topic t1 \<noteq> run_dir_name lower topic t2)"
proof (intro conjI impI)
  show "run_dir_name lower topic now =
      topic_slug lower topic @ ascii ''_'' @ strftime_run_stamp now"
    by (simp add: run_dir_name_def)
  show "topic_slug lower topic =
     (if take 60 (join_str (ascii ''-'') (split_ws [] (lower topic))) = [] then ascii ''topic''
      else take 60 (join_str (ascii ''-'') (split_ws [] (lower topic))))"
    by (simp add: topic_slug_def Let_def)
  show "topic_slug lower topic \<noteq> []" "length (topic_slug lower topic) \<le> 60"
    "list_all (\<lambda>c. \<not> is_space c) (topic_slug lower topic)"
    using topic_slug_shape [of lower topic] by simp_all
next
  assume a: "valid_datetime now \<and> 1000 \<le> dt_year now"
  then have y: "dt_year now \<le> 9999" by (simp add: valid_datetime_def)
  show "strftime_run_stamp now =
        map (\<lambda>d. 48 + d)
          [dt_year now div 1000, dt_year now div 100 mod 10, dt_year now div 10 mod 10,
           dt_year now mod 10, dt_month now div 10, dt_month now mod 10,
           dt_day now div 10, dt_day now mod 10] @
        ascii ''T'' @
        map (\<lambda>d. 48 + d)
          [dt_hour now div 10, dt_hour now mod 10, dt_minute now div 10, dt_minute now mod 10,
           dt_second now div 10, dt_second now mod 10] @
        ascii ''Z''"
    using a y by (simp add: stamp_tail dec_four ascii_def)
next
  assume a: "valid_datetime t1 \<and> valid_datetime t2 \<and> seconds_apart t1 t2"
  show "run_dir_name lower topic t1 \<noteq> run_dir_name lower topic t2"
  proof
    assume "run_dir_name lower topic t1 = run_dir_name lower topic t2"
    then have "strftime_run_stamp t1 = strftime_run_stamp t2"
      by (simp add: run_dir_name_def)
    with a have same: "dt_year t1 = dt_year t2 \<and> dt_month t1 = dt_month t2 \<and>
        dt_day t1 = dt_day t2 \<and> dt_hour t1 = dt_hour t2 \<and> dt_minute t1 = dt_minute t2 \<and>
        dt_second t1 = dt_second t2"
      by (intro stamp_inj) simp_all
    have "dt_microsecond t1 < 1000000" "dt_microsecond t2 < 1000000"
      using a by (simp_all add: valid_datetime_def)
    then have "\<bar>microseconds t1 - microseconds t2\<bar> < 1000000"
      using same by (simp add: microseconds_def)
    with a show False by (simp add: seconds_apart_def)
  qed
qed

theorem run_directory_name_witness:
  "valid_datetime sample_now \<and> 1000 \<le> dt_year sample_now \<and>
   valid_datetime (sample_now\<lparr>dt_second := 1\<rparr>) \<and>
   seconds_apart sample_now (sample_now\<lparr>dt_second := 1\<rparr>) \<and>
   run_dir_name ascii_lower (ascii ''Coral  Reef bleaching '') sample_now =
     ascii ''coral-reef-bleaching_20250101T000000Z'' \<and>
   run_dir_name ascii_lower (ascii ''Coral  Reef bleaching '') (sample_now\<lparr>dt_second := 1\<rparr>) =
     ascii ''coral-reef-bleaching_20250101T000001Z'' \<and>
   run_dir_name ascii_lower (ascii ''Coral  Reef bleaching '') sample_now \<noteq>
     run_dir_name ascii_lower (ascii ''Coral  Reef bleaching '') (sample_now\<lparr>dt_second := 1\<rparr>) \<and>
   run_dir_name ascii_lower (ascii ''   '') sample_now = ascii ''topic_20250101T000000Z''"
proof -
  have v1: "valid_datetime sample_now"
    by (simp add: valid_datetime_def sample_now_def days_in_month_def)
  have v2: "valid_datetime (sample_now\<lparr>dt_second := 1\<rparr>)"
    by (simp add: valid_datetime_def sample_now_def days_in_month_def)
  have y: "1000 \<le> dt_year sample_now" by (simp add: sample_now_def)
  have apart: "seconds_apart sample_now (sample_now\<lparr>dt_second := 1\<rparr>)"
    by (simp add: seconds_apart_def microseconds_def sample_now_def)
  have slug: "topic_slug ascii_lower (ascii ''Coral  Reef bleaching '') =
      ascii ''coral-reef-bleaching''"
    by (simp add: topic_slug_def ascii_lower_def ascii_def is_space_def)
  have slug0: "topic_slug ascii_lower (ascii ''   '') = ascii ''topic''"
    by (simp add: topic_slug_def ascii_lower_def ascii_def is_space_def)
  note inst = run_directory_name_unique_per_second [of ascii_lower
      "ascii ''Coral  Reef bleaching ''" sample_now sample_now "sample_now\<lparr>dt_second := 1\<rparr>"]
  note inst1 = run_directory_name_unique_per_second [of ascii_lower
      "ascii ''Coral  Reef bleaching ''" "sample_now\<lparr>dt_second := 1\<rparr>" sample_now sample_now]
  note inst0 = run_directory_name_unique_per_second [of ascii_lower
      "ascii ''   ''" sample_now sample_now sample_now]
  have s1: "strftime_run_stamp sample_now = ascii ''20250101T000000Z''"
    using inst v1 y by (simp add: sample_now_def ascii_def)
  have s2: "strftime_run_stamp (sample_now\<lparr>dt_second := 1\<rparr>) = ascii ''20250101T000001Z''"
    using inst1 v2 y by (simp add: sample_now_def ascii_def)
  have n1: "run_dir_name ascii_lower (ascii ''Coral  Reef bleaching '') sample_now =
     ascii ''coral-reef-bleaching_20250101T000000Z''"
    using inst unfolding slug s1 by (simp add: ascii_def)
  have n2: "run_dir_name ascii_lower (ascii ''Coral  Reef bleaching '') (sample_now\<lparr>dt_second := 1\<rparr>) =
     ascii ''coral-reef-bleaching_20250101T000001Z''"
    using inst1 unfolding slug s2 by (simp add: ascii_def)
  have n0: "run_dir_name ascii_lower (ascii ''   '') sample_now = ascii ''topic_20250101T000000Z''"
    using inst0 unfolding slug0 s1 by (simp add: ascii_def)
  have ne: "run_dir_name ascii_lower (ascii ''Coral  Reef bleaching '') sample_now \<noteq>
     run_dir_name ascii_lower (ascii ''Coral  Reef bleaching '') (sample_now\<lparr>dt_second := 1\<rparr>)"
    using inst v1 v2 apart by blast
  show ?thesis
    using v1 v2 y apart n1 n2 n0 ne by (simp only: simp_thms)
qed

subsection \<open>The files of a run and the story writer\<close>





lemma write_full_stories_success:
  "write_full_stories env plan model_name provider_name gateway_api_key w = (Inr output, w') \<longleftrightarrow>
     written_reply env
       (snd (build_agent model_name provider_name gateway_api_key writer_system_prompt w))
       (fst (build_agent model_name provider_name gateway_api_key writer_system_prompt w))
       (writer_prompt plan) = Some output \<and>
     validate_written_stories output \<and>
     w' = snd (build_agent model_name provider_name gateway_api_key writer_system_prompt w) @
          [Run_agent (fst (build_agent model_name provider_name gateway_api_key
                             writer_system_prompt w)) (writer_prompt plan)]"
  by (auto simp: write_full_stories_def Let_def split: prod.splits option.splits)

text \<open>
  Claim C2, as stated, fails: a backend may answer a valid plan with three stories in another
  order, with another headline and with an index that is no position, and the story writer
  returns them.
\<close>

theorem story_writer_order_counterexample:
  "validate_story_plan sample_plan \<and>
   fst (write_full_stories (scripted_env swapped_written) sample_plan
          (ascii ''gateway/openai:gpt-5.2'') (ascii ''openai'') (ascii ''paig_key'') []) =
     Inr swapped_written \<and>
   story_index (written_stories swapped_written ! 0) \<noteq> 0 + 1 \<and>
   story_headline (written_stories swapped_written ! 1) \<noteq> idea_headline (plan_stories sample_plan ! 1) \<and>
   \<not> preserves_order sample_plan swapped_written"
proof -
  have v: "validate_story_plan sample_plan"
    by (simp add: validate_story_plan_def sample_plan_def STORY_COUNT_def)
  have run: "fst (write_full_stories (scripted_env swapped_written) sample_plan
          (ascii ''gateway/openai:gpt-5.2'') (ascii ''openai'') (ascii ''paig_key'') []) =
     Inr swapped_written"
    by (simp add: write_full_stories_def Let_def scripted_env_def sample_env_def
        validate_written_stories_def swapped_written_def STORY_COUNT_def split: prod.splits)
  have i: "story_index (written_stories swapped_written ! 0) \<noteq> 0 + 1"
    by (simp add: swapped_written_def)
  have h: "story_headline (written_stories swapped_written ! 1) \<noteq>
      idea_headline (plan_stories sample_plan ! 1)"
    by (simp add: swapped_written_def sample_plan_def ascii_def)
  have p: "\<not> preserves_order sample_plan swapped_written"
    by (simp add: preserves_order_def STORY_COUNT_def swapped_written_def sample_plan_def
        upt_rec)
  show ?thesis using v run i h p by (simp only: simp_thms)
qed

text \<open>
  Claim C2, amended. For every plan given to the story writer, a returned output has exactly
  \<open>STORY_COUNT\<close> stories and is the reply of the backend to the writer's prompt; the prompt
  ends with the plan as JSON and asks for the order and the headlines of the plan, and the
  writer runs its agent once. The indices and headlines of the output are those of the reply:
  the code checks the number of stories and nothing else.
\<close>

theorem story_writer_returns_validated_reply:
  assumes "write_full_stories env plan model_name provider_name gateway_api_key w =
           (Inr output, w')"
  shows "length (written_stories output) = STORY_COUNT \<and>
         written_reply env
           (snd (build_agent model_name provider_name gateway_api_key writer_system_prompt w))
           (fst (build_agent model_name provider_name gateway_api_key writer_system_prompt w))
           (writer_prompt plan) = Some output \<and>
         suffix (json_dumps None (story_plan_dump plan)) (writer_prompt plan) \<and>
         w' = snd (build_agent model_name provider_name gateway_api_key writer_system_prompt w) @
              [Run_agent (fst (build_agent model_name provider_name gateway_api_key
                                 writer_system_prompt w)) (writer_prompt plan)]"
proof -
  have "suffix (json_dumps None (story_plan_dump plan)) (writer_prompt plan)"
    unfolding writer_prompt_def by (intro suffix_appendI suffix_order.refl)
  then show ?thesis
    using assms unfolding write_full_stories_success
    by (simp add: validate_written_stories_def)
qed

theorem story_writer_witness:
  "write_full_stories (scripted_env sample_written) sample_plan
     (ascii ''gateway/openai:gpt-5.2'') (ascii ''openai'') (ascii ''paig_key'') [] =
     (Inr sample_written,
      [Setenv (ascii ''PYDANTIC_AI_GATEWAY_API_KEY'') (ascii ''paig_key''),
       Run_agent (Gateway_agent (ascii ''gateway/openai:gpt-5.2'') writer_system_prompt)
         (writer_prompt sample_plan)]) \<and>
   length (written_stories sample_written) = STORY_COUNT \<and>
   preserves_order sample_plan sample_written"
proof -
  have b: "build_agent (ascii ''gateway/openai:gpt-5.2'') (ascii ''openai'') (ascii ''paig_key'')
        writer_system_prompt [] =
      (Gateway_agent (ascii ''gateway/openai:gpt-5.2'') writer_system_prompt,
       [Setenv (ascii ''PYDANTIC_AI_GATEWAY_API_KEY'') (ascii ''paig_key'')])"
    by (simp add: build_agent_def ascii_def)
  have run: "write_full_stories (scripted_env sample_written) sample_plan
     (ascii ''gateway/openai:gpt-5.2'') (ascii ''openai'') (ascii ''paig_key'') [] =
     (Inr sample_written,
      [Setenv (ascii ''PYDANTIC_AI_GATEWAY_API_KEY'') (ascii ''paig_key''),
       Run_agent (Gateway_agent (ascii ''gateway/openai:gpt-5.2'') writer_system_prompt)
         (writer_prompt sample_plan)])"
    unfolding write_full_stories_def b
    by (simp add: Let_def scripted_env_def sample_env_def validate_written_stories_def
        sample_written_def STORY_COUNT_def)
  have p: "preserves_order sample_plan sample_written"
    by (simp add: preserves_order_def STORY_COUNT_def sample_written_def sample_plan_def upt_rec)
  show ?thesis
    using story_writer_returns_validated_reply [OF run] run p by (simp only: simp_thms)
qed

subsection \<open>The audio stage\<close>



























end
